theory Spec2Isabelle
  imports Main "HOL-Library.Word" "HOL-Library.Signed_Division" "HOL-Library.Multiset"
begin

unbundle bit_operations_syntax

section \<open>Machine types and fatal errors\<close>

text \<open>
  The C++ sources use \<^verbatim>\<open>int\<close> and \<^verbatim>\<open>unsigned\<close> (mshadow's \<^verbatim>\<open>index_t\<close>), both
  32 bits wide, and \<^verbatim>\<open>size_t\<close> and \<^verbatim>\<open>long\<close>, 64 bits wide.  A 32-bit value is a
  \<open>32 word\<close>: \<open>+\<close>, \<open>-\<close> and \<open>*\<close> wrap around, \<open>\<le>\<close> and \<open>div\<close> are the unsigned ones,
  and \<open>sint\<close> reads the word as a two's complement \<^verbatim>\<open>int\<close>.  Converting between
  \<^verbatim>\<open>int\<close> and \<^verbatim>\<open>unsigned\<close> keeps the bits, so it is the identity on words.
\<close>

type_synonym int32 = "32 word"
type_synonym index_t = "32 word"
type_synonym size_t = "64 word"
type_synonym long = "64 word"

text \<open>
  Every way in which a call does not return normally is a value of \<open>error\<close>:
  \<^item> \<open>Fatal msg\<close>: \<^verbatim>\<open>utils::Error(msg)\<close>, a failed \<^verbatim>\<open>utils::Check(cond, msg)\<close> or a
    failed \<^verbatim>\<open>CHECK(cond)\<close>;
  \<^item> \<open>OutOfBounds\<close>: an access through \<^verbatim>\<open>operator[]\<close> of a \<^verbatim>\<open>std::vector\<close> or a
    tensor beyond its end, or through a pointer to no node; no check guards it
    and C++ leaves the behaviour undefined;
  \<^item> \<open>DivByZero\<close>: an integer division by zero (undefined in C++, a trap on the
    usual hardware);
  \<^item> \<open>BadAlloc\<close>: a \<^verbatim>\<open>std::vector::resize\<close> to more elements than a vector can hold.
\<close>

datatype error = Fatal string | OutOfBounds | DivByZero | BadAlloc

text \<open>
  Modelled from the spec: \<^verbatim>\<open>utils::Error\<close> and \<^verbatim>\<open>utils::Check\<close> (utils/utils.h) and
  the \<^verbatim>\<open>CHECK\<close> macro (dmlc/logging.h) are not among the sources.  Section 7 of
  the specification calls every such failure fatal and never recoverable in
  place, so \<^verbatim>\<open>utils::Error(msg)\<close> never returns to its caller, and
  \<^verbatim>\<open>utils::Check(cond, msg)\<close> returns exactly when \<open>cond\<close> holds.
\<close>

definition utils_Error :: "string \<Rightarrow> error + 'a" where
  "utils_Error msg = Inl (Fatal msg)"

definition utils_Check :: "bool \<Rightarrow> string \<Rightarrow> error + unit" where
  "utils_Check cond msg = (if cond then Inr () else Inl (Fatal msg))"

definition CHECK :: "bool \<Rightarrow> error + unit" where
  "CHECK cond = utils_Check cond ''Check failed''"

section \<open>Parameter key encoder (updater.h)\<close>

definition kDataKeyStep :: int32 where
  "kDataKeyStep = 4"

text \<open>
  \<^verbatim>\<open>EncodeDataKey\<close> compares the tag with \<^verbatim>\<open>strcmp\<close>, first against "bias", then
  against "wmat".  The arithmetic is that of \<^verbatim>\<open>int\<close>.  C++ leaves the overflow of
  a signed product undefined; the model takes what the compiled code does, the
  wrap-around at 32 bits.
\<close>

definition EncodeDataKey :: "int32 \<Rightarrow> string \<Rightarrow> error + int32" where
  "EncodeDataKey layer_index tag =
     (if tag = ''bias'' then Inr (layer_index * kDataKeyStep + 1)
      else if tag = ''wmat'' then Inr (layer_index * kDataKeyStep + 0)
      else utils_Error ''EncodeDataKey: only support weight tag: wmat or bias'')"

text \<open>
  \<^verbatim>\<open>DecodeTag\<close> switches on \<^verbatim>\<open>key % kDataKeyStep\<close>.  The C++ remainder of two
  \<^verbatim>\<open>int\<close>s truncates towards zero and takes the sign of the dividend: it is
  \<open>smod\<close> on the signed values, not \<open>mod\<close>.
\<close>

definition DecodeTag :: "int32 \<Rightarrow> error + string" where
  "DecodeTag key =
     (let r = sint key smod sint kDataKeyStep
      in if r = 0 then Inr ''wmat''
         else if r = 1 then Inr ''bias''
         else utils_Error ''invalid key'')"

section \<open>Asynchronous updater (updater.h)\<close>

text \<open>
  \<^verbatim>\<open>IAsyncUpdater\<close> overrides the two \<^verbatim>\<open>Update\<close> overloads of \<^verbatim>\<open>IUpdater\<close>; both
  bodies are the single call of \<^verbatim>\<open>utils::Error\<close>.  The updater object is \<open>self\<close>,
  of any type; a call that returned would return the object.
\<close>

definition IAsyncUpdater_Update :: "'u \<Rightarrow> long \<Rightarrow> error + 'u" where
  "IAsyncUpdater_Update self epoch =
     utils_Error ''IAsyncUpdater.Update call AfterBackprop instead''"

definition IAsyncUpdater_Update_grad :: "'u \<Rightarrow> long \<Rightarrow> 'g \<Rightarrow> error + 'u" where
  "IAsyncUpdater_Update_grad self epoch grad =
     utils_Error ''IAsyncUpdater.Update call AfterBackprop instead''"

section \<open>Pooling layer (pooling_layer-inl.hpp)\<close>

text \<open>
  Isabelle does not accept a name that ends in an underscore, so a member
  \<^verbatim>\<open>x_\<close> of a C++ class is the field \<open>x\<close> of the record: \<^verbatim>\<open>shape_\<close> is \<open>shape\<close>,
  \<^verbatim>\<open>param_\<close> is \<open>param\<close>, \<^verbatim>\<open>in_shape_\<close> is \<open>in_shape\<close>, and so on.

  A \<^verbatim>\<open>mshadow::Shape<4>\<close> is four \<^verbatim>\<open>index_t\<close>; \<open>Shape4\<close> builds it and \<open>d0\<close> ... \<open>d3\<close>
  read \<^verbatim>\<open>s[0]\<close> ... \<^verbatim>\<open>s[3]\<close>.  A tensor is its shape and the content of its buffer;
  the content is of any type \<open>'a\<close>, since the layer only hands it to mshadow
  expressions.  A \<^verbatim>\<open>TensorContainer\<close> is a tensor that owns its buffer and has the
  padding flag that \<^verbatim>\<open>set_pad\<close> sets.
\<close>

datatype Shape4 = Shape4 (d0: index_t) (d1: index_t) (d2: index_t) (d3: index_t)

record 'a Tensor4 =
  shape :: Shape4
  dptr :: 'a

record 'a TensorContainer = "'a Tensor4" +
  pad_flag :: bool

record 'a Node =
  data :: "'a Tensor4"

record 'a ConnectState =
  states :: "'a TensorContainer list"

text \<open>
  The layer receives its nodes as vectors of pointers.  A pointer is an address
  in a store of nodes, so that writing through \<^verbatim>\<open>nodes_in[0]\<close> changes that one
  node of the store and nothing else.
\<close>

type_synonym node_ptr = nat
type_synonym 'a node_store = "node_ptr \<Rightarrow> 'a Node option"

text \<open>
  Modelled from the spec: \<^verbatim>\<open>LayerParam\<close> (layer/param.h) is not among the sources.
  The pooling layer reads five of its members; the source compares
  \<^verbatim>\<open>kernel_height\<close> with 0 and casts it to \<^verbatim>\<open>index_t\<close>, so they are \<^verbatim>\<open>int\<close>s.
\<close>

record LayerParam =
  kernel_height :: int32
  kernel_width :: int32
  stride :: int32
  pad_y :: int32
  pad_x :: int32

text \<open>
  The template parameters \<^verbatim>\<open>mode\<close> and \<^verbatim>\<open>is_identity\<close> are fields of the layer.  The
  source names three modes; any other value of the \<^verbatim>\<open>int\<close> parameter is
  \<open>kOtherPooling\<close>.
\<close>

datatype pool_mode = kMaxPooling | kSumPooling | kAvgPooling | kOtherPooling

record PoolingLayer =
  mode :: pool_mode
  is_identity :: bool
  param :: LayerParam
  in_shape :: "index_t \<times> index_t"

text \<open>
  One spatial dimension of \<^verbatim>\<open>oshape\<close> in \<^verbatim>\<open>InitNode\<close>.  The operands are \<^verbatim>\<open>index_t\<close>,
  the \<^verbatim>\<open>int\<close> product \<^verbatim>\<open>2 * param_.pad_y\<close> is converted to \<^verbatim>\<open>unsigned\<close>, and the
  whole expression is computed modulo \<open>2 ^ 32\<close>, with the unsigned minimum and
  the unsigned division.  The division by a stride of 0 is the error
  \<open>DivByZero\<close> of \<^verbatim>\<open>InitNode\<close> below.
\<close>

definition pool_out :: "index_t \<Rightarrow> int32 \<Rightarrow> index_t \<Rightarrow> index_t \<Rightarrow> index_t" where
  "pool_out isz padding ksize kstride =
     min (isz + 2 * padding - ksize + kstride - 1) (isz + 2 * padding - 1) div kstride + 1"

text \<open>
  \<^verbatim>\<open>InitNode\<close>.  The parameter \<open>alloc\<close> gives the content of a state buffer after
  \<^verbatim>\<open>Resize\<close>: mshadow keeps the old buffer when it is large enough and allocates
  an uninitialised one otherwise, so the content depends on the old states, on
  the slot and on the new shape, and on nothing the layer controls.  After
  \<^verbatim>\<open>states.resize(2)\<close> both slots get \<^verbatim>\<open>set_pad(false)\<close> and \<^verbatim>\<open>Resize\<close>.
\<close>

definition InitNode ::
  "('a TensorContainer list \<Rightarrow> nat \<Rightarrow> Shape4 \<Rightarrow> 'a) \<Rightarrow> PoolingLayer \<Rightarrow> 'a node_store \<Rightarrow>
   node_ptr list \<Rightarrow> node_ptr list \<Rightarrow> 'a ConnectState \<Rightarrow>
   error + (PoolingLayer \<times> 'a node_store \<times> 'a ConnectState)" where
  "InitNode alloc self h nodes_in nodes_out p_cstate =
     (case utils_Check (length nodes_in = 1 \<and> length nodes_out = 1)
             ''PoolingLayer: only support 1-1 connection'' of
        Inl e \<Rightarrow> Inl e
      | Inr _ \<Rightarrow>
     (let ksize_y = kernel_height (param self);
          ksize_x = kernel_width (param self);
          kstride = stride (param self)
      in case h (nodes_in ! 0) of
        None \<Rightarrow> Inl OutOfBounds
      | Some nin \<Rightarrow>
     (let ishape = shape (data nin);
          self' = self\<lparr>in_shape := (d2 ishape, d3 ishape)\<rparr>
      in case utils_Check (0 < sint (kernel_height (param self)) \<and>
                           0 < sint (kernel_width (param self)))
                ''must set kernel_size correctly'' of
        Inl e \<Rightarrow> Inl e
      | Inr _ \<Rightarrow>
     (case utils_Check (ksize_x \<le> d3 ishape \<and> ksize_y \<le> d2 ishape)
             ''kernel size exceed input'' of
        Inl e \<Rightarrow> Inl e
      | Inr _ \<Rightarrow>
     (if kstride = 0 then Inl DivByZero
      else
     (let oshape = Shape4 (d0 ishape) (d1 ishape)
                     (pool_out (d2 ishape) (pad_y (param self)) ksize_y kstride)
                     (pool_out (d3 ishape) (pad_x (param self)) ksize_x kstride)
      in case h (nodes_out ! 0) of
        None \<Rightarrow> Inl OutOfBounds
      | Some nout \<Rightarrow>
          Inr (self',
               h(nodes_out ! 0 \<mapsto> nout\<lparr>data := (data nout)\<lparr>shape := oshape\<rparr>\<rparr>),
               p_cstate\<lparr>states :=
                 [\<lparr>shape = oshape, dptr = alloc (states p_cstate) 0 oshape,
                   pad_flag = False\<rparr>,
                  \<lparr>shape = ishape, dptr = alloc (states p_cstate) 1 ishape,
                   pad_flag = False\<rparr>]\<rparr>)))))))"

definition InitConnection ::
  "('a TensorContainer list \<Rightarrow> nat \<Rightarrow> Shape4 \<Rightarrow> 'a) \<Rightarrow> PoolingLayer \<Rightarrow> 'a node_store \<Rightarrow>
   node_ptr list \<Rightarrow> node_ptr list \<Rightarrow> 'a ConnectState \<Rightarrow>
   error + (PoolingLayer \<times> 'a node_store \<times> 'a ConnectState)" where
  "InitConnection alloc self h nodes_in nodes_out p_cstate =
     InitNode alloc self h nodes_in nodes_out p_cstate"

text \<open>
  The shape that a call of \<^verbatim>\<open>InitConnection\<close> has left in the node \<open>out\<close>, read
  from the result of the call.
\<close>

definition out_shape ::
  "error + (PoolingLayer \<times> 'a node_store \<times> 'a ConnectState) \<Rightarrow> node_ptr \<Rightarrow> error + Shape4" where
  "out_shape r out =
     (case r of
        Inl e \<Rightarrow> Inl e
      | Inr (self, h, cs) \<Rightarrow>
          (case h out of None \<Rightarrow> Inl OutOfBounds | Some n \<Rightarrow> Inr (shape (data n))))"

text \<open>
  The formula of the specification for one output dimension, read over the
  integers: \<open>min(H + 2p - k + s - 1, H + 2p - 1) / s + 1\<close>.
\<close>

definition pool_out_spec :: "int \<Rightarrow> int \<Rightarrow> int \<Rightarrow> int \<Rightarrow> int" where
  "pool_out_spec H p k s = min (H + 2 * p - k + s - 1) (H + 2 * p - 1) div s + 1"

text \<open>
  \<^verbatim>\<open>Backprop\<close>.  The mshadow expression
  \<^verbatim>\<open>crop(unpool<Reducer>(pad(in, pad_y, pad_x), pad(tmp, 0, 0), pad(out, 0, 0),
  ksize_y, ksize_x, stride), in_shape_, pad_y, pad_x)\<close>
  is the parameter \<open>unpool_crop\<close>, a function of the layer parameters,
  \<^verbatim>\<open>in_shape_\<close> and the three tensors; the factor
  \<^verbatim>\<open>1.0f / (ksize_y * ksize_x)\<close> of the average mode is the parameter \<open>scale\<close>,
  applied to the \<^verbatim>\<open>int\<close> product.  The reference \<^verbatim>\<open>tmp\<close> to \<^verbatim>\<open>states[0]\<close> is bound
  before the test of \<^verbatim>\<open>prop_grad\<close> and read only inside it.  The assignment
  writes the buffer of \<^verbatim>\<open>nodes_in[0]->data\<close> and keeps its shape.  In the branch of
  \<^verbatim>\<open>!is_identity\<close> the call of \<^verbatim>\<open>utils::Error\<close> comes first, so nothing after it is
  reached.
\<close>

definition Backprop ::
  "(LayerParam \<Rightarrow> index_t \<times> index_t \<Rightarrow> 'a Tensor4 \<Rightarrow> 'a TensorContainer \<Rightarrow> 'a Tensor4 \<Rightarrow> 'a) \<Rightarrow>
   (int32 \<Rightarrow> 'a \<Rightarrow> 'a) \<Rightarrow> PoolingLayer \<Rightarrow> bool \<Rightarrow> 'a node_store \<Rightarrow>
   node_ptr list \<Rightarrow> node_ptr list \<Rightarrow> 'a ConnectState \<Rightarrow>
   error + ('a node_store \<times> 'a ConnectState)" where
  "Backprop unpool_crop scale self prop_grad h nodes_in nodes_out p_cstate =
     (if prop_grad then
        (let ksize_y = kernel_height (param self);
             ksize_x = kernel_width (param self)
         in if is_identity self then
              (if mode self = kMaxPooling \<or> mode self = kSumPooling then
                 (case (nodes_in, nodes_out, states p_cstate) of
                    (i # _, out # _, tmp # _) \<Rightarrow>
                      (case (h i, h out) of
                         (Some nin, Some nout) \<Rightarrow>
                           Inr (h(i \<mapsto> nin\<lparr>data := (data nin)\<lparr>dptr :=
                                  unpool_crop (param self) (in_shape self)
                                    (data nin) tmp (data nout)\<rparr>\<rparr>),
                                p_cstate)
                       | _ \<Rightarrow> Inl OutOfBounds)
                  | _ \<Rightarrow> Inl OutOfBounds)
               else if mode self = kAvgPooling then
                 (case (nodes_in, nodes_out, states p_cstate) of
                    (i # _, out # _, tmp # _) \<Rightarrow>
                      (case (h i, h out) of
                         (Some nin, Some nout) \<Rightarrow>
                           Inr (h(i \<mapsto> nin\<lparr>data := (data nin)\<lparr>dptr :=
                                  scale (ksize_y * ksize_x)
                                    (unpool_crop (param self) (in_shape self)
                                       (data nin) tmp (data nout))\<rparr>\<rparr>),
                                p_cstate)
                       | _ \<Rightarrow> Inl OutOfBounds)
                  | _ \<Rightarrow> Inl OutOfBounds)
               else utils_Error ''Unknown pooling mode'')
            else utils_Error ''deprecated pooling with activation interface!'')
      else Inr (h, p_cstate))"

text \<open>
  Concrete inputs for the examples: a store of an input node at address 0, with
  one image of one channel and \<open>H \<times> W\<close> pixels, and an output node at address 1;
  a max-pooling layer with given parameters; buffers without content.
\<close>

definition unit_node :: "index_t \<Rightarrow> index_t \<Rightarrow> unit Node" where
  "unit_node H W = \<lparr>data = \<lparr>shape = Shape4 1 1 H W, dptr = ()\<rparr>\<rparr>"

definition example_store :: "index_t \<Rightarrow> index_t \<Rightarrow> unit node_store" where
  "example_store H W = [0 \<mapsto> unit_node H W, 1 \<mapsto> unit_node 0 0]"

definition unit_alloc :: "unit TensorContainer list \<Rightarrow> nat \<Rightarrow> Shape4 \<Rightarrow> unit" where
  "unit_alloc old k sh = ()"

definition max_pool :: "int32 \<Rightarrow> int32 \<Rightarrow> int32 \<Rightarrow> int32 \<Rightarrow> int32 \<Rightarrow> PoolingLayer" where
  "max_pool kh kw s py px =
     \<lparr>mode = kMaxPooling, is_identity = True,
      param = \<lparr>kernel_height = kh, kernel_width = kw, stride = s, pad_y = py, pad_x = px\<rparr>,
      in_shape = (0, 0)\<rparr>"

text \<open>
  Concrete inputs for \<^verbatim>\<open>Backprop\<close>: buffers whose content is one number, a stand-in
  for the unpooling expression that adds the three contents it is given, and a
  stand-in for the scaling that divides by the window size.
\<close>

definition nat_node :: "index_t \<Rightarrow> index_t \<Rightarrow> nat \<Rightarrow> nat Node" where
  "nat_node H W v = \<lparr>data = \<lparr>shape = Shape4 1 1 H W, dptr = v\<rparr>\<rparr>"

definition nat_store :: "nat Node \<Rightarrow> nat Node \<Rightarrow> nat node_store" where
  "nat_store a b = [0 \<mapsto> a, 1 \<mapsto> b]"

definition nat_state :: "nat \<Rightarrow> nat ConnectState" where
  "nat_state v = \<lparr>states = [\<lparr>shape = Shape4 1 1 2 2, dptr = v, pad_flag = False\<rparr>]\<rparr>"

definition add_unpool ::
  "LayerParam \<Rightarrow> index_t \<times> index_t \<Rightarrow> nat Tensor4 \<Rightarrow> nat TensorContainer \<Rightarrow> nat Tensor4 \<Rightarrow> nat"
  where
  "add_unpool p s tin tmp tout = dptr tin + dptr tmp + dptr tout"

definition div_scale :: "int32 \<Rightarrow> nat \<Rightarrow> nat" where
  "div_scale k g = g div unat k"

section \<open>Instance store (inst_vector.h)\<close>

text \<open>
  Modelled from the spec: \<^verbatim>\<open>mshadow::Shape<dim>\<close> belongs to the mshadow library and
  is not among the sources.  A shape is the list of its \<open>dim\<close> extents, each an
  \<^verbatim>\<open>index_t\<close>, and \<^verbatim>\<open>Size()\<close> is their product, computed in \<^verbatim>\<open>size_t\<close>.
\<close>

type_synonym Shape = "index_t list"

definition Shape_Size :: "Shape \<Rightarrow> size_t" where
  "Shape_Size s = prod_list (map ucast s)"

text \<open>
  \<^verbatim>\<open>TensorVector\<close>: the three vectors \<^verbatim>\<open>offset_\<close>, \<^verbatim>\<open>content_\<close> and \<^verbatim>\<open>shape_\<close> are the
  fields \<open>offset\<close>, \<open>content\<close> and \<open>shapes\<close>.  Offsets are \<^verbatim>\<open>size_t\<close> and wrap around
  at 64 bits.  The element type \<open>'a\<close> has a zero, the value that
  \<^verbatim>\<open>std::vector::resize\<close> gives to the elements it appends.
\<close>

record 'a TensorVector =
  offset :: "size_t list"
  content :: "'a list"
  shapes :: "Shape list"

text \<open>
  The tensor that \<^verbatim>\<open>operator[]\<close> returns holds a pointer into \<^verbatim>\<open>content_\<close> and a
  shape, and no element: it is the position \<open>vptr\<close> in the shared buffer together
  with \<open>vshape\<close>.  \<open>read_view\<close> and \<open>write_view\<close> are the accesses of a caller
  through such a tensor, to all its elements at once; an access that leaves the
  buffer is out of bounds.
\<close>

record TensorView =
  vptr :: size_t
  vshape :: Shape

definition read_view :: "'a list \<Rightarrow> TensorView \<Rightarrow> error + 'a list" where
  "read_view buf v =
     (if unat (vptr v) + unat (Shape_Size (vshape v)) \<le> length buf
      then Inr (take (unat (Shape_Size (vshape v))) (drop (unat (vptr v)) buf))
      else Inl OutOfBounds)"

definition write_view :: "'a list \<Rightarrow> TensorView \<Rightarrow> 'a list \<Rightarrow> error + 'a list" where
  "write_view buf v xs =
     (if length xs = unat (Shape_Size (vshape v)) \<and>
         unat (vptr v) + unat (Shape_Size (vshape v)) \<le> length buf
      then Inr (take (unat (vptr v)) buf @ xs @
                drop (unat (vptr v) + unat (Shape_Size (vshape v))) buf)
      else Inl OutOfBounds)"

definition vector_resize :: "nat \<Rightarrow> 'a::zero list \<Rightarrow> 'a list" where
  "vector_resize n xs = take n xs @ replicate (n - length xs) 0"

definition TensorVector_Clear :: "'a TensorVector \<Rightarrow> 'a TensorVector" where
  "TensorVector_Clear tv = tv\<lparr>offset := [0], content := [], shapes := []\<rparr>"

text \<open>The constructor calls \<^verbatim>\<open>Clear\<close> on the three empty vectors.\<close>

definition TensorVector_new :: "'a TensorVector" where
  "TensorVector_new = TensorVector_Clear \<lparr>offset = [], content = [], shapes = []\<rparr>"

definition TensorVector_Size :: "'a TensorVector \<Rightarrow> size_t" where
  "TensorVector_Size tv = of_nat (length (shapes tv))"

text \<open>
  \<^verbatim>\<open>operator[]\<close>.  The first \<^verbatim>\<open>CHECK\<close> compares \<^verbatim>\<open>i + 1\<close>, computed in \<^verbatim>\<open>size_t\<close>, with
  the number of offsets.  The second \<^verbatim>\<open>CHECK\<close> reads \<^verbatim>\<open>shape_[i]\<close>, \<^verbatim>\<open>offset_[i + 1]\<close>
  and \<^verbatim>\<open>offset_[i]\<close> through the unchecked \<^verbatim>\<open>operator[]\<close> of \<^verbatim>\<open>std::vector\<close>.
\<close>

definition TensorVector_at :: "'a TensorVector \<Rightarrow> size_t \<Rightarrow> error + TensorView" where
  "TensorVector_at tv i =
     (case CHECK (unat (i + 1) < length (offset tv)) of
        Inl e \<Rightarrow> Inl e
      | Inr _ \<Rightarrow>
          if \<not> (unat i < length (shapes tv) \<and> unat (i + 1) < length (offset tv)
                 \<and> unat i < length (offset tv))
          then Inl OutOfBounds
          else
            (case CHECK (Shape_Size (shapes tv ! unat i) =
                           offset tv ! unat (i + 1) - offset tv ! unat i) of
               Inl e \<Rightarrow> Inl e
             | Inr _ \<Rightarrow> Inr \<lparr>vptr = offset tv ! unat i, vshape = shapes tv ! unat i\<rparr>))"

text \<open>\<^verbatim>\<open>Back\<close> computes \<^verbatim>\<open>Size() - 1\<close> in \<^verbatim>\<open>size_t\<close>.\<close>

definition TensorVector_Back :: "'a TensorVector \<Rightarrow> error + TensorView" where
  "TensorVector_Back tv = TensorVector_at tv (TensorVector_Size tv - 1)"

text \<open>
  \<^verbatim>\<open>Push\<close>.  \<^verbatim>\<open>offset_.back()\<close> is an unchecked access; the constructor and \<^verbatim>\<open>Clear\<close>
  leave one offset and nothing removes one, so the vector is empty only in a
  record that no execution builds.  The buffer is a list of any length, that
  is, memory is not bounded.
\<close>

definition TensorVector_Push :: "'a::zero TensorVector \<Rightarrow> Shape \<Rightarrow> error + 'a TensorVector" where
  "TensorVector_Push tv sh =
     (if offset tv = [] then Inl OutOfBounds
      else
        (let shapes' = shapes tv @ [sh];
             offset' = offset tv @ [last (offset tv) + Shape_Size sh]
         in Inr (tv\<lparr>shapes := shapes', offset := offset',
                    content := vector_resize (unat (last offset')) (content tv)\<rparr>)))"

text \<open>A sequence of calls of \<^verbatim>\<open>Push\<close>, one per shape.\<close>

fun Push_all :: "'a::zero TensorVector \<Rightarrow> Shape list \<Rightarrow> error + 'a TensorVector" where
  "Push_all tv [] = Inr tv"
| "Push_all tv (sh # shs) =
     (case TensorVector_Push tv sh of Inl e \<Rightarrow> Inl e | Inr tv' \<Rightarrow> Push_all tv' shs)"

text \<open>The number of elements of all the tensors of given shapes, as a natural number.\<close>

definition total_size :: "Shape list \<Rightarrow> nat" where
  "total_size shs = sum_list (map (\<lambda>s. unat (Shape_Size s)) shs)"

text \<open>The offsets that pushes of given shapes append after the offset \<open>a\<close>.\<close>

fun offsets_from :: "size_t \<Rightarrow> Shape list \<Rightarrow> size_t list" where
  "offsets_from a [] = [a]"
| "offsets_from a (s # ss) = a # offsets_from (a + Shape_Size s) ss"

text \<open>
  \<^verbatim>\<open>InstVector\<close>: the members \<^verbatim>\<open>index_\<close>, \<^verbatim>\<open>data_\<close> and \<^verbatim>\<open>label_\<close> are the fields
  \<open>iv_index\<close>, \<open>iv_data\<close> and \<open>iv_label\<close>, and the members of a \<^verbatim>\<open>DataInst\<close> are
  \<open>di_index\<close>, \<open>di_data\<close> and \<open>di_label\<close>.  \<^verbatim>\<open>operator[]\<close> reads \<^verbatim>\<open>index_[i]\<close> first,
  unchecked, and then the two tensor vectors.
\<close>

record 'a InstVector =
  iv_index :: "index_t list"
  iv_data :: "'a TensorVector"
  iv_label :: "'a TensorVector"

record DataInst =
  di_index :: index_t
  di_data :: TensorView
  di_label :: TensorView

definition InstVector_new :: "'a InstVector" where
  "InstVector_new = \<lparr>iv_index = [], iv_data = TensorVector_new, iv_label = TensorVector_new\<rparr>"

definition InstVector_Size :: "'a InstVector \<Rightarrow> size_t" where
  "InstVector_Size iv = of_nat (length (iv_index iv))"

definition InstVector_at :: "'a InstVector \<Rightarrow> size_t \<Rightarrow> error + DataInst" where
  "InstVector_at iv i =
     (if \<not> unat i < length (iv_index iv) then Inl OutOfBounds
      else
        (case TensorVector_at (iv_data iv) i of
           Inl e \<Rightarrow> Inl e
         | Inr d \<Rightarrow>
             (case TensorVector_at (iv_label iv) i of
                Inl e \<Rightarrow> Inl e
              | Inr l \<Rightarrow>
                  Inr \<lparr>di_index = iv_index iv ! unat i, di_data = d, di_label = l\<rparr>)))"

definition InstVector_Back :: "'a InstVector \<Rightarrow> error + DataInst" where
  "InstVector_Back iv = InstVector_at iv (InstVector_Size iv - 1)"

definition InstVector_Clear :: "'a InstVector \<Rightarrow> 'a InstVector" where
  "InstVector_Clear iv =
     iv\<lparr>iv_index := [], iv_data := TensorVector_Clear (iv_data iv),
        iv_label := TensorVector_Clear (iv_label iv)\<rparr>"

definition InstVector_Push ::
  "'a::zero InstVector \<Rightarrow> index_t \<Rightarrow> Shape \<Rightarrow> Shape \<Rightarrow> error + 'a InstVector" where
  "InstVector_Push iv index dshape lshape =
     (case TensorVector_Push (iv_data iv) dshape of
        Inl e \<Rightarrow> Inl e
      | Inr d \<Rightarrow>
          (case TensorVector_Push (iv_label iv) lshape of
             Inl e \<Rightarrow> Inl e
           | Inr l \<Rightarrow>
               Inr (iv\<lparr>iv_index := iv_index iv @ [index], iv_data := d, iv_label := l\<rparr>)))"

fun InstVector_Push_all ::
  "'a::zero InstVector \<Rightarrow> (index_t \<times> Shape \<times> Shape) list \<Rightarrow> error + 'a InstVector" where
  "InstVector_Push_all iv [] = Inr iv"
| "InstVector_Push_all iv ((index, dshape, lshape) # xs) =
     (case InstVector_Push iv index dshape lshape of
        Inl e \<Rightarrow> Inl e
      | Inr iv' \<Rightarrow> InstVector_Push_all iv' xs)"

section \<open>Batch source (iter_mnist-inl.hpp)\<close>

text \<open>
  Modelled from the spec: \<^verbatim>\<open>dmlc::Stream\<close> (dmlc/io.h) is not among the sources.  A
  stream opened for reading is the list of the bytes not yet read;
  \<^verbatim>\<open>Read(ptr, n)\<close> takes up to \<open>n\<close> bytes from its front and returns how many it took.
\<close>

type_synonym Stream = "8 word list"

definition Stream_Read :: "Stream \<Rightarrow> nat \<Rightarrow> 8 word list \<times> Stream" where
  "Stream_Read fi n = (take n fi, drop n fi)"

text \<open>
  \<^verbatim>\<open>ReadInt\<close> reads four bytes, checks that it got four, and assembles them with
  the first byte as the most significant one.
\<close>

definition ReadInt :: "Stream \<Rightarrow> error + (int32 \<times> Stream)" where
  "ReadInt fi =
     (let (buf, fi') = Stream_Read fi 4
      in case utils_Check (length buf = 4) ''invalid mnist format'' of
           Inl e \<Rightarrow> Inl e
         | Inr _ \<Rightarrow>
             Inr (push_bit 24 (ucast (buf ! 0)) OR push_bit 16 (ucast (buf ! 1)) OR
                  push_bit 8 (ucast (buf ! 2)) OR ucast (buf ! 3), fi'))"

text \<open>
  The batch that \<^verbatim>\<open>Value()\<close> returns holds three pointers into the buffers of the
  iterator: \<^verbatim>\<open>out_.data.dptr_\<close>, \<^verbatim>\<open>out_.label.dptr_\<close> and \<^verbatim>\<open>out_.inst_index\<close>.  A
  pointer is the number of the instance it points to, or \<open>None\<close> while it is
  not set.
\<close>

record BatchView =
  data_dptr :: "index_t option"
  label_dptr :: "index_t option"
  inst_index :: "index_t option"

text \<open>
  The iterator.  \<^verbatim>\<open>img_\<close> is a tensor of \<^verbatim>\<open>img_.size(0)\<close> images and the code moves
  whole images only: \<open>img\<close> is the list of the images, of any type.  \<^verbatim>\<open>labels_\<close>
  holds \<^verbatim>\<open>float\<close>s whose values are the bytes of the label file; a \<^verbatim>\<open>float\<close>
  represents every byte exactly, so a label is the integer it holds.  The
  state of the random sampler is of any type \<open>'r\<close>.  \<^verbatim>\<open>loc_\<close> is not initialised by
  the constructor: it has whatever value the record gives it until
  \<^verbatim>\<open>BeforeFirst\<close> is called.
\<close>

record ('img, 'r) MNISTIterator =
  out_batch :: BatchView
  loc :: index_t
  batch_size :: index_t
  img :: "'img list"
  labels :: "int list"
  inst_offset :: index_t
  inst :: "index_t list"
  rnd :: 'r

definition BeforeFirst :: "('img, 'r) MNISTIterator \<Rightarrow> ('img, 'r) MNISTIterator" where
  "BeforeFirst it = it\<lparr>loc := 0\<rparr>"

text \<open>
  \<^verbatim>\<open>Next\<close>.  The sum \<^verbatim>\<open>loc_ + batch_size_\<close> and the comparison with \<^verbatim>\<open>img_.size(0)\<close>
  are those of \<^verbatim>\<open>index_t\<close>.
\<close>

definition Next :: "('img, 'r) MNISTIterator \<Rightarrow> bool \<times> ('img, 'r) MNISTIterator" where
  "Next it =
     (if loc it + batch_size it \<le> of_nat (length (img it)) then
        (True, it\<lparr>out_batch := \<lparr>data_dptr = Some (loc it), label_dptr = Some (loc it),
                                inst_index = Some (loc it)\<rparr>,
                  loc := loc it + batch_size it\<rparr>)
      else (False, it))"

definition Value :: "('img, 'r) MNISTIterator \<Rightarrow> BatchView" where
  "Value it = out_batch it"

text \<open>
  What a caller reads through the batch: \<^verbatim>\<open>batch_size\<close> rows of a buffer from the
  pointer on.  \<^verbatim>\<open>Init\<close> copies \<^verbatim>\<open>batch_size_\<close> into \<^verbatim>\<open>out_.batch_size\<close> and into the
  shapes of the batch, so the number of rows is \<open>batch_size\<close>.
\<close>

definition batch_rows :: "'a list \<Rightarrow> index_t option \<Rightarrow> index_t \<Rightarrow> error + 'a list" where
  "batch_rows buf p b =
     (case p of
        None \<Rightarrow> Inl OutOfBounds
      | Some q \<Rightarrow>
          if unat q + unat b \<le> length buf
          then Inr (take (unat b) (drop (unat q) buf))
          else Inl OutOfBounds)"

definition batch_content ::
  "('img, 'r) MNISTIterator \<Rightarrow> error + ('img list \<times> int list \<times> index_t list)" where
  "batch_content it =
     (case batch_rows (img it) (data_dptr (Value it)) (batch_size it) of
        Inl e \<Rightarrow> Inl e
      | Inr d \<Rightarrow>
          (case batch_rows (labels it) (label_dptr (Value it)) (batch_size it) of
             Inl e \<Rightarrow> Inl e
           | Inr l \<Rightarrow>
               (case batch_rows (inst it) (inst_index (Value it)) (batch_size it) of
                  Inl e \<Rightarrow> Inl e
                | Inr ix \<Rightarrow> Inr (d, l, ix))))"

text \<open>The state after \<open>k\<close> calls of \<^verbatim>\<open>Next\<close>, whatever they return.\<close>

primrec Nexts :: "nat \<Rightarrow> ('img, 'r) MNISTIterator \<Rightarrow> ('img, 'r) MNISTIterator" where
  "Nexts 0 it = it"
| "Nexts (Suc k) it = snd (Next (Nexts k it))"

text \<open>
  The loop of \<^verbatim>\<open>LoadLabel\<close>: \<open>n\<close> more labels to read, the next one with number \<open>i\<close>.
  The \<^verbatim>\<open>CHECK\<close> reads one byte (the argument \<^verbatim>\<open>sizeof(ch) != 0\<close> is the size 1) and
  fails when the stream has none.
\<close>

fun read_labels ::
  "nat \<Rightarrow> nat \<Rightarrow> Stream \<Rightarrow> index_t \<Rightarrow> int list \<times> index_t list \<Rightarrow>
   error + (int list \<times> index_t list)" where
  "read_labels 0 i fi off (ls, ins) = Inr (ls, ins)"
| "read_labels (Suc n) i fi off (ls, ins) =
     (case Stream_Read fi 1 of
        ([ch], fi') \<Rightarrow>
          (if i < length ls
           then read_labels n (Suc i) fi' off (ls[i := uint ch], ins @ [of_nat i + off])
           else Inl OutOfBounds)
      | _ \<Rightarrow> Inl (Fatal ''Check failed''))"

text \<open>
  \<^verbatim>\<open>LoadLabel\<close>.  The stream is the content of the label file.  The count is an
  \<^verbatim>\<open>int\<close>; \<^verbatim>\<open>labels_.resize\<close> converts it to \<^verbatim>\<open>size_t\<close>, and a negative count becomes
  a size that no vector can have.
\<close>

definition LoadLabel ::
  "('img, 'r) MNISTIterator \<Rightarrow> Stream \<Rightarrow> error + ('img, 'r) MNISTIterator" where
  "LoadLabel it stdlabel =
     (case ReadInt stdlabel of
        Inl e \<Rightarrow> Inl e
      | Inr (magic, s1) \<Rightarrow>
          (case ReadInt s1 of
             Inl e \<Rightarrow> Inl e
           | Inr (labels_count, s2) \<Rightarrow>
               if sint labels_count < 0 then Inl BadAlloc
               else
                 (case read_labels (nat (sint labels_count)) 0 s2 (inst_offset it)
                         (vector_resize (nat (sint labels_count)) (labels it), inst it) of
                    Inl e \<Rightarrow> Inl e
                  | Inr (ls, ins) \<Rightarrow> Inr (it\<lparr>labels := ls, inst := ins\<rparr>))))"

text \<open>
  The loop of \<^verbatim>\<open>Shuffle\<close>: the identities still to visit, the position \<open>i\<close> of the
  first of them, and the two temporary buffers.  \<^verbatim>\<open>ridx\<close> is computed in
  \<^verbatim>\<open>unsigned\<close>.  No access is checked.
\<close>

fun shuffle_rows ::
  "index_t \<Rightarrow> 'img list \<Rightarrow> int list \<Rightarrow> index_t list \<Rightarrow> nat \<Rightarrow> 'img list \<times> int list \<Rightarrow>
   error + ('img list \<times> int list)" where
  "shuffle_rows off im ls [] i (tmpimg, tmplabel) = Inr (tmpimg, tmplabel)"
| "shuffle_rows off im ls (x # xs) i (tmpimg, tmplabel) =
     (let ridx = unat (x - off)
      in if i < length tmpimg \<and> ridx < length im \<and> i < length tmplabel \<and> ridx < length ls
         then shuffle_rows off im ls xs (Suc i)
                (tmpimg[i := im ! ridx], tmplabel[i := ls ! ridx])
         else Inl OutOfBounds)"

text \<open>
  Modelled from the spec: \<^verbatim>\<open>utils::RandomSampler\<close> (utils/random.h) is not among the
  sources.  The specification says that the shuffle generates a permutation of
  the instance identities using a seeded random generator, deterministic given
  the same seed.  So \<^verbatim>\<open>rnd.Shuffle(inst_)\<close> is a function \<open>rs\<close> of the state of the
  generator and of the vector, which returns the new vector and the new state,
  and \<open>permutes_ids rs r xs\<close> says that the call in state \<open>r\<close> on \<open>xs\<close> returns a
  permutation of \<open>xs\<close>.
\<close>

definition permutes_ids ::
  "('r \<Rightarrow> index_t list \<Rightarrow> index_t list \<times> 'r) \<Rightarrow> 'r \<Rightarrow> index_t list \<Rightarrow> bool" where
  "permutes_ids rs r xs \<longleftrightarrow> mset (fst (rs r xs)) = mset xs"

text \<open>
  \<^verbatim>\<open>Shuffle\<close>.  \<^verbatim>\<open>tmplabel\<close> is a vector of zeros; \<^verbatim>\<open>tmpimg\<close> is allocated and not
  initialised, and \<open>uninit\<close> stands for the content of a row that the loop does
  not write.
\<close>

definition Shuffle ::
  "('r \<Rightarrow> index_t list \<Rightarrow> index_t list \<times> 'r) \<Rightarrow> 'img \<Rightarrow> ('img, 'r) MNISTIterator \<Rightarrow>
   error + ('img, 'r) MNISTIterator" where
  "Shuffle rs uninit it =
     (let (inst', rnd') = rs (rnd it) (inst it);
          tmplabel = replicate (length (labels it)) 0;
          tmpimg = replicate (length (img it)) uninit
      in case shuffle_rows (inst_offset it) (img it) (labels it) inst' 0 (tmpimg, tmplabel) of
           Inl e \<Rightarrow> Inl e
         | Inr (tmpimg', tmplabel') \<Rightarrow>
             Inr (it\<lparr>inst := inst', rnd := rnd', img := tmpimg', labels := tmplabel'\<rparr>))"

text \<open>
  The identities that \<^verbatim>\<open>LoadLabel\<close> gives to \<open>N\<close> instances: \<open>i + index_offset\<close> for
  \<open>i < N\<close>, in \<^verbatim>\<open>unsigned\<close> arithmetic.
\<close>

definition identities :: "index_t \<Rightarrow> nat \<Rightarrow> index_t list" where
  "identities off N = map (\<lambda>i. of_nat i + off) [0..<N]"

text \<open>
  Concrete inputs for the examples: a sampler that rotates the vector by the
  state of its generator, and an iterator over \<open>N\<close> instances whose images are
  the numbers \<open>100 + i\<close> and whose labels are \<open>i mod 10\<close>.
\<close>

definition rotate_sampler :: "nat \<Rightarrow> index_t list \<Rightarrow> index_t list \<times> nat" where
  "rotate_sampler r xs = (rotate r xs, Suc r)"

definition example_iterator :: "nat \<Rightarrow> index_t \<Rightarrow> index_t \<Rightarrow> (nat, nat) MNISTIterator" where
  "example_iterator N b off =
     \<lparr>out_batch = \<lparr>data_dptr = None, label_dptr = None, inst_index = None\<rparr>,
      loc = 7, batch_size = b, img = map (\<lambda>i. 100 + i) [0..<N],
      labels = map (\<lambda>i. int (i mod 10)) [0..<N], inst_offset = off,
      inst = identities off N, rnd = 3\<rparr>"

section \<open>Arithmetic of 32-bit keys\<close>

lemma dvd4_mod: "(4::int) dvd (x * 4) mod (4 * k)"
  by (metis dvd_mod dvd_triv_left dvd_triv_right)

lemma signed_take_bit_dvd4: "4 dvd signed_take_bit 31 ((x::int) * 4)"
proof -
  have "signed_take_bit 31 (x * 4) = take_bit 32 (x * 4) - 2 ^ 32 * of_bool (bit (x * 4) 31)"
    using signed_take_bit_eq_take_bit_minus [of 31 "x * 4"] by simp
  moreover have "(4::int) dvd take_bit 32 (x * 4)"
    using dvd4_mod [of x "2 ^ 30"] by (simp add: take_bit_eq_mod)
  moreover have "(4::int) dvd 2 ^ 32 * of_bool (bit (x * 4) 31)"
    by simp
  ultimately show ?thesis by (metis dvd_diff)
qed

lemma sint_mult4_dvd: "4 dvd sint ((li::int32) * 4)"
  by (simp add: sint_word_ariths signed_take_bit_dvd4)

lemma smod4_of_dvd: "4 dvd (k::int) \<Longrightarrow> k smod 4 = 0"
  by (auto simp: signed_modulo_int_def abs_mult elim!: dvdE)

lemma sint_bias_key:
  assumes "0 \<le> sint (li::int32)" "sint li < 2 ^ 29"
  shows "sint (li * 4 + 1) = 4 * sint li + 1"
proof -
  have "sint (li * 4 + 1) = signed_take_bit 31 (sint (li * 4) + 1)"
    by (simp add: sint_word_ariths)
  also have "\<dots> = signed_take_bit 31 (signed_take_bit 31 (sint li * 4) + 1)"
    by (simp add: sint_word_ariths)
  also have "\<dots> = signed_take_bit 31 (sint li * 4 + 1)"
    by (metis signed_take_bit_add signed_take_bit_signed_take_bit min.idem)
  also have "\<dots> = sint li * 4 + 1"
  proof (rule signed_take_bit_int_eq_self)
    have p: "(2::int) ^ 29 = 536870912" "(2::int) ^ 31 = 2147483648" by simp_all
    show "- (2 ^ 31) \<le> sint li * 4 + 1" using assms unfolding p by linarith
    show "sint li * 4 + 1 < 2 ^ 31" using assms unfolding p by linarith
  qed
  finally show ?thesis by simp
qed

lemma smod4_bias: "0 \<le> (x::int) \<Longrightarrow> (4 * x + 1) smod 4 = 1"
  by (simp add: signed_modulo_int_def)

lemma smod4_invalid:
  assumes "(k::int) mod 4 = 2 \<or> k mod 4 = 3"
  shows "k smod 4 \<noteq> 0 \<and> k smod 4 \<noteq> 1"
proof -
  have nz: "k \<noteq> 0" using assms by auto
  show ?thesis
  proof (cases "0 < k")
    case True
    then have "k smod 4 = k mod 4"
      by (simp add: signed_modulo_int_def)
    with assms show ?thesis by auto
  next
    case False
    with nz have neg: "k < 0" by simp
    then have "k smod 4 = - ((- k) mod 4)"
      by (simp add: signed_modulo_int_def)
    moreover have "0 \<le> (- k) mod 4" by simp
    moreover have "(- k) mod 4 \<noteq> 0" using assms by presburger
    ultimately show ?thesis by linarith
  qed
qed

section \<open>Claims about the key encoder and the asynchronous updater\<close>

text \<open>
  C1, in the form that holds of the code.  Encoding (layer_index, "wmat") and decoding the key gives
  "wmat" for every layer index.  Encoding (layer_index, "bias") and decoding the
  key gives "bias" for every layer index from 0 up to, and not including,
  \<open>2 ^ 29\<close>, the indices whose key \<open>4 * layer_index + 1\<close> fits an \<^verbatim>\<open>int\<close>.
  Decoding a key whose remainder modulo 4 is 2 or 3 fails with the fatal error
  "invalid key", and encoding a tag other than "wmat" and "bias" fails.
\<close>

theorem key_roundtrip:
  "(\<exists>k. EncodeDataKey li ''wmat'' = Inr k \<and> DecodeTag k = Inr ''wmat'') \<and>
   (0 \<le> sint li \<and> sint li < 2 ^ 29 \<longrightarrow>
      (\<exists>k. EncodeDataKey li ''bias'' = Inr k \<and> DecodeTag k = Inr ''bias'')) \<and>
   (sint key mod 4 = 2 \<or> sint key mod 4 = 3 \<longrightarrow>
      DecodeTag key = Inl (Fatal ''invalid key'')) \<and>
   (tag \<noteq> ''wmat'' \<and> tag \<noteq> ''bias'' \<longrightarrow>
      EncodeDataKey li tag =
        Inl (Fatal ''EncodeDataKey: only support weight tag: wmat or bias''))"
proof (intro conjI impI)
  show "\<exists>k. EncodeDataKey li ''wmat'' = Inr k \<and> DecodeTag k = Inr ''wmat''"
    using smod4_of_dvd [OF sint_mult4_dvd [of li]]
    by (simp add: EncodeDataKey_def DecodeTag_def kDataKeyStep_def)
next
  assume r: "0 \<le> sint li \<and> sint li < 2 ^ 29"
  then have "sint (li * 4 + 1) smod 4 = 1"
    using sint_bias_key [of li] smod4_bias [of "sint li"] by simp
  then show "\<exists>k. EncodeDataKey li ''bias'' = Inr k \<and> DecodeTag k = Inr ''bias''"
    by (simp add: EncodeDataKey_def DecodeTag_def kDataKeyStep_def)
next
  assume "sint key mod 4 = 2 \<or> sint key mod 4 = 3"
  from smod4_invalid [OF this]
  show "DecodeTag key = Inl (Fatal ''invalid key'')"
    by (simp add: DecodeTag_def kDataKeyStep_def utils_Error_def)
next
  assume "tag \<noteq> ''wmat'' \<and> tag \<noteq> ''bias''"
  then show "EncodeDataKey li tag =
      Inl (Fatal ''EncodeDataKey: only support weight tag: wmat or bias'')"
    by (simp add: EncodeDataKey_def utils_Error_def)
qed

theorem key_roundtrip_witness:
  "0 \<le> sint (7::int32) \<and> sint (7::int32) < 2 ^ 29 \<and>
   EncodeDataKey 7 ''bias'' = Inr 29 \<and> DecodeTag 29 = Inr ''bias'' \<and>
   sint (6::int32) mod 4 = 2 \<and> DecodeTag 6 = Inl (Fatal ''invalid key'') \<and>
   ''conv'' \<noteq> ''wmat'' \<and> ''conv'' \<noteq> ''bias'' \<and>
   EncodeDataKey 7 ''conv'' =
     Inl (Fatal ''EncodeDataKey: only support weight tag: wmat or bias'')"
  using key_roundtrip [of 7 6 "''conv''"]
  by (simp add: EncodeDataKey_def DecodeTag_def kDataKeyStep_def signed_modulo_int_def)

text \<open>
  The claim as stated, for every layer index from 0 on, fails at layer index
  \<open>2 ^ 29 = 536870912\<close>: the key \<open>4 * 2 ^ 29 + 1\<close> does not fit an \<^verbatim>\<open>int\<close>, the
  wrapped key is negative, its C++ remainder is \<open>-3\<close>, and decoding fails.
\<close>

theorem key_roundtrip_counterexample:
  "0 \<le> sint (536870912::int32) \<and>
   EncodeDataKey 536870912 ''bias'' = Inr 2147483649 \<and>
   DecodeTag 2147483649 = Inl (Fatal ''invalid key'')"
  by (simp add: EncodeDataKey_def DecodeTag_def kDataKeyStep_def utils_Error_def
      signed_modulo_int_def)

text \<open>
  C8.  Each of the two synchronous \<^verbatim>\<open>Update\<close> overloads of an asynchronous
  updater fails with the fatal usage error, for every updater, every epoch and
  every gradient argument.
\<close>

theorem async_update_fails:
  "IAsyncUpdater_Update self epoch =
     Inl (Fatal ''IAsyncUpdater.Update call AfterBackprop instead'') \<and>
   IAsyncUpdater_Update_grad self epoch grad =
     Inl (Fatal ''IAsyncUpdater.Update call AfterBackprop instead'')"
  by (simp add: IAsyncUpdater_Update_def IAsyncUpdater_Update_grad_def utils_Error_def)

section \<open>Arithmetic of the pooling shape\<close>

lemma int_div_le_self': "0 \<le> (a::int) \<Longrightarrow> 1 \<le> b \<Longrightarrow> a div b \<le> a"
  using zdiv_mono2 [of a 1 b] by simp

lemma sint_nonneg_uint:
  assumes "0 \<le> sint (w::32 word)"
  shows "sint w = uint w"
proof -
  have "sint w = signed_take_bit 31 (uint w)"
    by (simp add: sint_uint)
  also have "\<dots> = take_bit 32 (uint w) - 2 ^ 32 * of_bool (bit (uint w) 31)"
    using signed_take_bit_eq_take_bit_minus [of 31 "uint w"] by simp
  also have "take_bit 32 (uint w) = uint w"
    using uint_lt2p [of w] by (simp add: take_bit_int_eq_self)
  finally have e: "sint w = uint w - 4294967296 * of_bool (bit (uint w) 31)" by simp
  have "uint w < 4294967296" using uint_lt2p [of w] by simp
  with e assms have "\<not> bit (uint w) 31"
    by (cases "bit (uint w) 31") simp_all
  with e show ?thesis by simp
qed

lemma uint_min: "uint (min (a::32 word) b) = min (uint a) (uint b)"
  by (simp add: min_def word_le_def)

lemma uint_of_int_32:
  "0 \<le> x \<Longrightarrow> x < 4294967296 \<Longrightarrow> uint (word_of_int x :: 32 word) = x"
  by (simp add: uint_word_of_int_eq take_bit_int_eq_self)

lemma word_le_of_sint:
  assumes "0 < sint (k::32 word)"
  shows "k \<le> H \<longleftrightarrow> sint k \<le> uint H"
  using sint_nonneg_uint [of k] assms by (simp add: word_le_def)

text \<open>
  Without wrap-around the 32-bit computation of \<open>pool_out\<close> is the formula of the
  specification.
\<close>

lemma pool_out_uint:
  assumes k: "0 < sint k" "k \<le> isz"
    and p: "0 \<le> sint p" and s: "0 < sint s"
    and fit: "uint isz + 2 * sint p + sint s - 1 < 2 ^ 32"
  shows "uint (pool_out isz p k s) = pool_out_spec (uint isz) (sint p) (sint k) (sint s)"
proof -
  have p32: "(2::int) ^ 32 = 4294967296" by simp
  have ek: "sint k = uint k" using k(1) by (simp add: sint_nonneg_uint)
  have ep: "sint p = uint p" using p by (simp add: sint_nonneg_uint)
  have es: "sint s = uint s" using s by (simp add: sint_nonneg_uint)
  have kle: "uint k \<le> uint isz" using k(2) by (simp add: word_le_def)
  have k1: "1 \<le> uint k" using k(1) ek by simp
  have s1: "1 \<le> uint s" using s es by simp
  have p0: "0 \<le> uint p" by simp
  have f: "uint isz + 2 * uint p + uint s - 1 < 4294967296" using fit ep es p32 by simp
  have a: "isz + 2 * p - k + s - 1 = word_of_int (uint isz + 2 * uint p - uint k + uint s - 1)"
    by simp
  have b: "isz + 2 * p - 1 = word_of_int (uint isz + 2 * uint p - 1)"
    by simp
  have ua: "uint (isz + 2 * p - k + s - 1) = uint isz + 2 * uint p - uint k + uint s - 1"
    unfolding a using kle k1 s1 p0 f by (intro uint_of_int_32) linarith+
  have ub: "uint (isz + 2 * p - 1) = uint isz + 2 * uint p - 1"
    unfolding b using kle k1 s1 p0 f by (intro uint_of_int_32) linarith+
  let ?m = "min (isz + 2 * p - k + s - 1) (isz + 2 * p - 1)"
  have um: "uint ?m = min (uint isz + 2 * uint p - uint k + uint s - 1) (uint isz + 2 * uint p - 1)"
    by (simp only: uint_min ua ub)
  have ud: "uint (?m div s) = uint ?m div uint s"
    by (rule uint_div)
  have "uint ?m \<le> uint isz + 2 * uint p - 1" unfolding um by simp
  moreover have "uint ?m div uint s \<le> uint ?m" using s1
    by (intro int_div_le_self') simp_all
  ultimately have bound: "uint (?m div s) + 1 < 4294967296" using ud f s1 by linarith
  have c: "?m div s + 1 = word_of_int (uint (?m div s) + 1)" by simp
  have "uint (?m div s + 1) = uint (?m div s) + 1"
    unfolding c using bound by (intro uint_of_int_32) simp_all
  then show ?thesis
    by (simp only: pool_out_def pool_out_spec_def ud um ek ep es)
qed

section \<open>Pooling: the checks and the result of InitConnection\<close>

text \<open>The body of \<^verbatim>\<open>InitNode\<close> on a connection of one input and one output node.\<close>

lemma InitNode_unfold:
  assumes "h i = Some nin"
  shows "InitNode alloc self h [i] [out] cs =
    (if \<not> (0 < sint (kernel_height (param self)) \<and> 0 < sint (kernel_width (param self)))
     then Inl (Fatal ''must set kernel_size correctly'')
     else if \<not> (kernel_width (param self) \<le> d3 (shape (data nin)) \<and>
                 kernel_height (param self) \<le> d2 (shape (data nin)))
     then Inl (Fatal ''kernel size exceed input'')
     else if stride (param self) = 0 then Inl DivByZero
     else case h out of
        None \<Rightarrow> Inl OutOfBounds
      | Some nout \<Rightarrow>
          Inr (self\<lparr>in_shape := (d2 (shape (data nin)), d3 (shape (data nin)))\<rparr>,
               h(out \<mapsto> nout\<lparr>data := (data nout)\<lparr>shape :=
                 Shape4 (d0 (shape (data nin))) (d1 (shape (data nin)))
                   (pool_out (d2 (shape (data nin))) (pad_y (param self))
                      (kernel_height (param self)) (stride (param self)))
                   (pool_out (d3 (shape (data nin))) (pad_x (param self))
                      (kernel_width (param self)) (stride (param self)))\<rparr>\<rparr>),
               cs\<lparr>states :=
                 [\<lparr>shape = Shape4 (d0 (shape (data nin))) (d1 (shape (data nin)))
                     (pool_out (d2 (shape (data nin))) (pad_y (param self))
                        (kernel_height (param self)) (stride (param self)))
                     (pool_out (d3 (shape (data nin))) (pad_x (param self))
                        (kernel_width (param self)) (stride (param self))),
                   dptr = alloc (states cs) 0
                     (Shape4 (d0 (shape (data nin))) (d1 (shape (data nin)))
                       (pool_out (d2 (shape (data nin))) (pad_y (param self))
                          (kernel_height (param self)) (stride (param self)))
                       (pool_out (d3 (shape (data nin))) (pad_x (param self))
                          (kernel_width (param self)) (stride (param self)))),
                   pad_flag = False\<rparr>,
                  \<lparr>shape = shape (data nin), dptr = alloc (states cs) 1 (shape (data nin)),
                   pad_flag = False\<rparr>]\<rparr>))"
  using assms by (simp add: InitNode_def utils_Check_def Let_def split: option.splits)

lemma out_shape_accepted:
  assumes acc: "out_shape (InitNode alloc self h [i] [out] cs) out = Inr osh"
    and nin: "h i = Some nin"
  shows "0 < sint (kernel_height (param self))" "0 < sint (kernel_width (param self))"
    "kernel_height (param self) \<le> d2 (shape (data nin))"
    "kernel_width (param self) \<le> d3 (shape (data nin))"
    "osh = Shape4 (d0 (shape (data nin))) (d1 (shape (data nin)))
             (pool_out (d2 (shape (data nin))) (pad_y (param self))
                (kernel_height (param self)) (stride (param self)))
             (pool_out (d3 (shape (data nin))) (pad_x (param self))
                (kernel_width (param self)) (stride (param self)))"
  using acc nin
  by (auto simp: InitNode_unfold [where nin = nin] out_shape_def
      split: if_splits option.splits)

text \<open>
  C2, in the form that holds of the code.  For every input with spatial
  dimensions (H, W), kernel (kh, kw), padding (py, px) and stride s that
  \<^verbatim>\<open>InitConnection\<close> accepts, if the paddings are not negative, the stride is
  positive, and \<open>H + 2 py + s - 1\<close> and \<open>W + 2 px + s - 1\<close> are below \<open>2 ^ 32\<close>,
  then the output shape keeps the batch and channel dimensions and its spatial
  dimensions are \<open>min(H + 2py - kh + s - 1, H + 2py - 1) / s + 1\<close> and
  \<open>min(W + 2px - kw + s - 1, W + 2px - 1) / s + 1\<close>.
\<close>

theorem pool_shape_inference:
  assumes acc: "out_shape (InitConnection alloc self h [i] [out] cs) out = Inr osh"
    and nin: "h i = Some nin"
    and py: "0 \<le> sint (pad_y (param self))" and px: "0 \<le> sint (pad_x (param self))"
    and st: "0 < sint (stride (param self))"
    and fity: "uint (d2 (shape (data nin))) + 2 * sint (pad_y (param self))
                 + sint (stride (param self)) - 1 < 2 ^ 32"
    and fitx: "uint (d3 (shape (data nin))) + 2 * sint (pad_x (param self))
                 + sint (stride (param self)) - 1 < 2 ^ 32"
  shows "d0 osh = d0 (shape (data nin)) \<and> d1 osh = d1 (shape (data nin)) \<and>
     uint (d2 osh) =
       pool_out_spec (uint (d2 (shape (data nin)))) (sint (pad_y (param self)))
         (sint (kernel_height (param self))) (sint (stride (param self))) \<and>
     uint (d3 osh) =
       pool_out_spec (uint (d3 (shape (data nin)))) (sint (pad_x (param self)))
         (sint (kernel_width (param self))) (sint (stride (param self)))"
proof -
  note a = out_shape_accepted [OF acc [unfolded InitConnection_def] nin]
  show ?thesis
    unfolding a(5)
    using pool_out_uint [OF a(1) a(3) py st fity] pool_out_uint [OF a(2) a(4) px st fitx]
    by simp
qed

text \<open>
  The two examples of the claim: a 28 \<open>\<times>\<close> 28 input with kernel height 3, padding 1
  and stride 2 has output height 15, and with kernel width 2, padding 0 and
  stride 2 it has output width 14.
\<close>

theorem pool_shape_inference_witness:
  "out_shape (InitConnection unit_alloc (max_pool 3 2 2 1 0) (example_store 28 28) [0] [1]
      \<lparr>states = []\<rparr>) 1 = Inr (Shape4 1 1 15 14) \<and>
   example_store 28 28 0 = Some (unit_node 28 28) \<and>
   0 \<le> sint (1::int32) \<and> 0 \<le> sint (0::int32) \<and> 0 < sint (2::int32) \<and>
   uint (28::index_t) + 2 * sint (1::int32) + sint (2::int32) - 1 < 2 ^ 32 \<and>
   uint (28::index_t) + 2 * sint (0::int32) + sint (2::int32) - 1 < 2 ^ 32 \<and>
   uint (15::index_t) = pool_out_spec 28 1 3 2 \<and>
   uint (14::index_t) = pool_out_spec 28 0 2 2"
  using pool_shape_inference [of unit_alloc "max_pool 3 2 2 1 0" "example_store 28 28" 0 1
      "\<lparr>states = []\<rparr>" "Shape4 1 1 15 14" "unit_node 28 28"]
  by (simp add: InitConnection_def InitNode_def out_shape_def utils_Check_def pool_out_def
      pool_out_spec_def example_store_def unit_node_def max_pool_def unit_alloc_def
      Let_def min_def word_le_def)

text \<open>
  The claim as stated, for every accepted input, fails for a negative padding:
  a 4 \<open>\<times>\<close> 4 input with a 4 \<open>\<times>\<close> 4 kernel, stride 1 and padding \<open>-1\<close> is accepted;
  the unsigned computation gives the output dimensions 2 \<open>\<times>\<close> 2, the formula gives
  \<open>-1\<close>.
\<close>

theorem pool_shape_inference_counterexample:
  "out_shape (InitConnection unit_alloc (max_pool 4 4 1 (- 1) (- 1)) (example_store 4 4) [0] [1]
      \<lparr>states = []\<rparr>) 1 = Inr (Shape4 1 1 2 2) \<and>
   pool_out_spec 4 (sint (- 1 :: int32)) 4 1 = - 1"
  by (simp add: InitConnection_def InitNode_def out_shape_def utils_Check_def pool_out_def
      pool_out_spec_def example_store_def unit_node_def max_pool_def unit_alloc_def
      Let_def min_def word_le_def)

text \<open>
  C3, in the form that holds of the code.  On a connection of one input and one
  output node, \<^verbatim>\<open>InitConnection\<close> fails with a fatal configuration error exactly
  when \<open>kh \<le> 0\<close> or \<open>kw \<le> 0\<close> or the kernel exceeds the input itself, \<open>kh > H\<close> or
  \<open>kw > W\<close>; the padding plays no part.  Otherwise, with a stride other than 0, it
  succeeds.  On any other number of input or output nodes it fails.
\<close>

theorem InitConnection_fails_iff:
  assumes "h i = Some nin" "h out = Some nout"
  shows "((\<exists>msg. InitConnection alloc self h [i] [out] cs = Inl (Fatal msg)) \<longleftrightarrow>
           (sint (kernel_height (param self)) \<le> 0 \<or> sint (kernel_width (param self)) \<le> 0 \<or>
            uint (d2 (shape (data nin))) < sint (kernel_height (param self)) \<or>
            uint (d3 (shape (data nin))) < sint (kernel_width (param self)))) \<and>
         (0 < sint (kernel_height (param self)) \<and> 0 < sint (kernel_width (param self)) \<and>
          sint (kernel_height (param self)) \<le> uint (d2 (shape (data nin))) \<and>
          sint (kernel_width (param self)) \<le> uint (d3 (shape (data nin))) \<and>
          stride (param self) \<noteq> 0 \<longrightarrow>
            (\<exists>r. InitConnection alloc self h [i] [out] cs = Inr r)) \<and>
         (length nodes_in \<noteq> 1 \<or> length nodes_out \<noteq> 1 \<longrightarrow>
            InitConnection alloc self h nodes_in nodes_out cs =
              Inl (Fatal ''PoolingLayer: only support 1-1 connection''))"
proof (intro conjI)
  show "(\<exists>msg. InitConnection alloc self h [i] [out] cs = Inl (Fatal msg)) \<longleftrightarrow>
           (sint (kernel_height (param self)) \<le> 0 \<or> sint (kernel_width (param self)) \<le> 0 \<or>
            uint (d2 (shape (data nin))) < sint (kernel_height (param self)) \<or>
            uint (d3 (shape (data nin))) < sint (kernel_width (param self)))"
  proof (cases "0 < sint (kernel_height (param self)) \<and> 0 < sint (kernel_width (param self))")
    case False
    with assms show ?thesis by (auto simp: InitConnection_def InitNode_unfold)
  next
    case True
    then show ?thesis
      using assms word_le_of_sint [of "kernel_height (param self)" "d2 (shape (data nin))"]
        word_le_of_sint [of "kernel_width (param self)" "d3 (shape (data nin))"]
      by (auto simp: InitConnection_def InitNode_unfold)
  qed
next
  show "0 < sint (kernel_height (param self)) \<and> 0 < sint (kernel_width (param self)) \<and>
          sint (kernel_height (param self)) \<le> uint (d2 (shape (data nin))) \<and>
          sint (kernel_width (param self)) \<le> uint (d3 (shape (data nin))) \<and>
          stride (param self) \<noteq> 0 \<longrightarrow>
            (\<exists>r. InitConnection alloc self h [i] [out] cs = Inr r)"
    using assms word_le_of_sint [of "kernel_height (param self)" "d2 (shape (data nin))"]
        word_le_of_sint [of "kernel_width (param self)" "d3 (shape (data nin))"]
    by (auto simp: InitConnection_def InitNode_unfold)
next
  show "length nodes_in \<noteq> 1 \<or> length nodes_out \<noteq> 1 \<longrightarrow>
            InitConnection alloc self h nodes_in nodes_out cs =
              Inl (Fatal ''PoolingLayer: only support 1-1 connection'')"
    by (auto simp: InitConnection_def InitNode_def utils_Check_def)
qed

theorem InitConnection_fails_iff_witness:
  "example_store 2 2 0 = Some (unit_node 2 2) \<and>
   example_store 2 2 1 = Some (unit_node 0 0) \<and>
   uint (2::index_t) < sint (3::int32) \<and>
   InitConnection unit_alloc (max_pool 3 3 1 1 1) (example_store 2 2) [0] [1] \<lparr>states = []\<rparr> =
     Inl (Fatal ''kernel size exceed input'') \<and>
   example_store 28 28 0 = Some (unit_node 28 28) \<and>
   example_store 28 28 1 = Some (unit_node 0 0) \<and>
   0 < sint (3::int32) \<and> 0 < sint (2::int32) \<and>
   sint (3::int32) \<le> uint (28::index_t) \<and> sint (2::int32) \<le> uint (28::index_t) \<and>
   (2::int32) \<noteq> 0 \<and>
   (\<exists>r. InitConnection unit_alloc (max_pool 3 2 2 1 0) (example_store 28 28) [0] [1]
          \<lparr>states = []\<rparr> = Inr r) \<and>
   length [0::nat, 1] \<noteq> 1 \<and>
   InitConnection unit_alloc (max_pool 3 2 2 1 0) (example_store 28 28) [0, 1] [1]
     \<lparr>states = []\<rparr> = Inl (Fatal ''PoolingLayer: only support 1-1 connection'')"
  using InitConnection_fails_iff [of "example_store 2 2" 0 "unit_node 2 2" 1 "unit_node 0 0"
      unit_alloc "max_pool 3 3 1 1 1" "\<lparr>states = []\<rparr>" "[0, 1]" "[1]"]
    InitConnection_fails_iff [of "example_store 28 28" 0 "unit_node 28 28" 1 "unit_node 0 0"
      unit_alloc "max_pool 3 2 2 1 0" "\<lparr>states = []\<rparr>" "[0, 1]" "[1]"]
  by (simp add: InitConnection_def InitNode_def utils_Check_def
      example_store_def unit_node_def max_pool_def unit_alloc_def)

text \<open>
  The claim as stated fails where the kernel exceeds the input and not the
  padded input: a 2 \<open>\<times>\<close> 2 input with padding 1 has padded size 4 \<open>\<times>\<close> 4, a 3 \<open>\<times>\<close> 3
  kernel does not exceed it, and \<^verbatim>\<open>InitConnection\<close> fails all the same.
\<close>

theorem InitConnection_fails_iff_counterexample:
  "0 < sint (3::int32) \<and>
   sint (3::int32) \<le> uint (2::index_t) + 2 * sint (1::int32) \<and>
   InitConnection unit_alloc (max_pool 3 3 1 1 1) (example_store 2 2) [0] [1] \<lparr>states = []\<rparr> =
     Inl (Fatal ''kernel size exceed input'')"
  by (simp add: InitConnection_def InitNode_def utils_Check_def
      example_store_def unit_node_def max_pool_def unit_alloc_def)

section \<open>Pooling: what Backprop writes\<close>

text \<open>
  C9.  With \<^verbatim>\<open>prop_grad == false\<close>, \<^verbatim>\<open>Backprop\<close> returns with every node of the
  store and the connection state unchanged, for every store, every vectors of
  nodes and every connection state.  With \<^verbatim>\<open>prop_grad == true\<close>, on an
  initialised connection of the layer without fused activation and with one of
  the three pooling modes, it overwrites the buffer of the input node with the
  computed input gradient (scaled in the average mode) and changes nothing
  else: no other node, not the shape of the input node, not the connection
  state.
\<close>

theorem Backprop_frame:
  "Backprop unpool_crop scale self False h nodes_in nodes_out cs = Inr (h, cs) \<and>
   (is_identity self \<and> mode self \<noteq> kOtherPooling \<and> nodes_in = [i] \<and> nodes_out = [out] \<and>
    h i = Some nin \<and> h out = Some nout \<and> states cs = tmp # rest \<longrightarrow>
      Backprop unpool_crop scale self True h nodes_in nodes_out cs =
        Inr (h(i \<mapsto> nin\<lparr>data := (data nin)\<lparr>dptr :=
               (if mode self = kAvgPooling
                then scale (kernel_height (param self) * kernel_width (param self))
                       (unpool_crop (param self) (in_shape self) (data nin) tmp (data nout))
                else unpool_crop (param self) (in_shape self) (data nin) tmp (data nout))\<rparr>\<rparr>),
             cs))"
  by (cases "mode self") (auto simp: Backprop_def Let_def)

theorem Backprop_frame_witness:
  "Backprop add_unpool div_scale ((max_pool 2 2 2 0 0)\<lparr>mode := kAvgPooling\<rparr>) False
     (nat_store (nat_node 4 4 8) (nat_node 2 2 9)) [0] [1] (nat_state 7) =
     Inr (nat_store (nat_node 4 4 8) (nat_node 2 2 9), nat_state 7) \<and>
   is_identity ((max_pool 2 2 2 0 0)\<lparr>mode := kAvgPooling\<rparr>) \<and>
   mode ((max_pool 2 2 2 0 0)\<lparr>mode := kAvgPooling\<rparr>) \<noteq> kOtherPooling \<and>
   nat_store (nat_node 4 4 8) (nat_node 2 2 9) 0 = Some (nat_node 4 4 8) \<and>
   nat_store (nat_node 4 4 8) (nat_node 2 2 9) 1 = Some (nat_node 2 2 9) \<and>
   states (nat_state 7) = [\<lparr>shape = Shape4 1 1 2 2, dptr = 7, pad_flag = False\<rparr>] \<and>
   Backprop add_unpool div_scale ((max_pool 2 2 2 0 0)\<lparr>mode := kAvgPooling\<rparr>) True
     (nat_store (nat_node 4 4 8) (nat_node 2 2 9)) [0] [1] (nat_state 7) =
     Inr (nat_store (nat_node 4 4 6) (nat_node 2 2 9), nat_state 7)"
  using Backprop_frame [of add_unpool div_scale "(max_pool 2 2 2 0 0)\<lparr>mode := kAvgPooling\<rparr>"
      "nat_store (nat_node 4 4 8) (nat_node 2 2 9)" "[0]" "[1]" "nat_state 7" 0 1
      "nat_node 4 4 8" "nat_node 2 2 9"
      "\<lparr>shape = Shape4 1 1 2 2, dptr = 7, pad_flag = False\<rparr>" "[]"]
  by (simp add: nat_store_def nat_node_def nat_state_def max_pool_def add_unpool_def
      div_scale_def fun_upd_twist)

section \<open>Instance store: offsets and views\<close>

lemma offsets_from_nonempty: "offsets_from a shs \<noteq> []"
  by (cases shs) simp_all

lemma length_offsets_from: "length (offsets_from a shs) = Suc (length shs)"
  by (induction shs arbitrary: a) simp_all

lemma offsets_from_0: "offsets_from a shs ! 0 = a"
  by (cases shs) simp_all

lemma offsets_from_step:
  "i < length shs \<Longrightarrow> offsets_from a shs ! Suc i - offsets_from a shs ! i = Shape_Size (shs ! i)"
proof (induction shs arbitrary: a i)
  case Nil
  then show ?case by simp
next
  case (Cons s ss)
  show ?case
  proof (cases i)
    case 0
    then show ?thesis by (simp add: offsets_from_0)
  next
    case (Suc j)
    with Cons show ?thesis by simp
  qed
qed

lemma Push_all_from:
  assumes "offset tv \<noteq> []"
  shows "\<exists>tv'. Push_all tv shs = Inr tv' \<and>
           offset tv' = butlast (offset tv) @ offsets_from (last (offset tv)) shs \<and>
           shapes tv' = shapes tv @ shs \<and>
           (shs \<noteq> [] \<longrightarrow> length (content tv') = unat (last (offset tv')))"
  using assms
proof (induction shs arbitrary: tv)
  case Nil
  then show ?case by simp
next
  case (Cons s ss)
  let ?tv1 = "tv\<lparr>shapes := shapes tv @ [s],
                 offset := offset tv @ [last (offset tv) + Shape_Size s],
                 content := vector_resize (unat (last (offset tv) + Shape_Size s)) (content tv)\<rparr>"
  have p: "TensorVector_Push tv s = Inr ?tv1"
    using Cons.prems by (simp add: TensorVector_Push_def Let_def)
  have ne: "offset ?tv1 \<noteq> []" by simp
  from Cons.IH [OF ne] obtain tv' where
    r: "Push_all ?tv1 ss = Inr tv'"
    and o: "offset tv' = butlast (offset ?tv1) @ offsets_from (last (offset ?tv1)) ss"
    and s: "shapes tv' = shapes ?tv1 @ ss"
    and c: "ss \<noteq> [] \<longrightarrow> length (content tv') = unat (last (offset tv'))"
    by blast
  have o': "offset tv' = butlast (offset tv) @ offsets_from (last (offset tv)) (s # ss)"
    using o Cons.prems by (simp add: butlast_append)
  have c': "length (content tv') = unat (last (offset tv'))"
  proof (cases ss)
    case Nil
    with r have "tv' = ?tv1" by simp
    then show ?thesis by (simp add: vector_resize_def)
  next
    case (Cons a list)
    with c show ?thesis by simp
  qed
  show ?case using p r o' s c' by simp
qed

lemma total_size_simps [simp]:
  "total_size [] = 0" "total_size (s # ss) = unat (Shape_Size s) + total_size ss"
  by (simp_all add: total_size_def)

lemma total_size_append: "total_size (xs @ ys) = total_size xs + total_size ys"
  by (simp add: total_size_def)

lemma total_size_take_le: "total_size (take i shs) \<le> total_size shs"
  using total_size_append [of "take i shs" "drop i shs"] by simp

lemma total_size_take_Suc:
  "i < length shs \<Longrightarrow> total_size (take (Suc i) shs) = total_size (take i shs) + unat (Shape_Size (shs ! i))"
  by (simp add: take_Suc_conv_app_nth total_size_append)

lemma unat_offsets_from:
  "unat a + total_size shs < 2 ^ 64 \<Longrightarrow> i \<le> length shs \<Longrightarrow>
   unat (offsets_from a shs ! i) = unat a + total_size (take i shs)"
proof (induction shs arbitrary: a i)
  case Nil
  then show ?case by simp
next
  case (Cons s ss)
  show ?case
  proof (cases i)
    case 0
    then show ?thesis by simp
  next
    case (Suc j)
    have fit: "unat a + unat (Shape_Size s) < 2 ^ 64" using Cons.prems(1) by simp
    then have u: "unat (a + Shape_Size s) = unat a + unat (Shape_Size s)"
      using unat_add_lem [of a "Shape_Size s"] by simp
    have "unat (offsets_from (a + Shape_Size s) ss ! j) = unat (a + Shape_Size s) + total_size (take j ss)"
      using Cons.prems Suc u by (intro Cons.IH) simp_all
    then show ?thesis using Suc u by simp
  qed
qed

lemma last_offsets_from: "last (offsets_from a shs) = offsets_from a shs ! length shs"
  using last_conv_nth [of "offsets_from a shs"] by (simp add: offsets_from_nonempty length_offsets_from)

lemma unat_Suc_index:
  assumes "i < n" "n < 2 ^ 64"
  shows "unat (of_nat i :: size_t) = i" "unat (of_nat i + 1 :: size_t) = Suc i"
proof -
  have lt: "i < 2 ^ 64" "Suc i < 2 ^ 64" using assms by simp_all
  show "unat (of_nat i :: size_t) = i"
    using lt(1) by (simp add: unat_of_nat)
  have "(of_nat i + 1 :: size_t) = of_nat (Suc i)" by simp
  then have "unat (of_nat i + 1 :: size_t) = Suc i mod 2 ^ 64"
    by (simp only: unat_of_nat) simp
  then show "unat (of_nat i + 1 :: size_t) = Suc i"
    using lt(2) by simp
qed

lemma read_write_view:
  assumes "length xs = unat (Shape_Size (vshape v))"
    and "unat (vptr v) + unat (Shape_Size (vshape v)) \<le> length buf"
  shows "\<exists>buf'. write_view buf v xs = Inr buf' \<and> length buf' = length buf \<and> read_view buf' v = Inr xs"
  using assms by (simp add: write_view_def read_view_def)


lemma total_size_take_mono: "a \<le> b \<Longrightarrow> total_size (take a shs) \<le> total_size (take b shs)"
proof -
  assume "a \<le> b"
  then have "take a shs = take a (take b shs)" by (simp add: min_def)
  then show ?thesis using total_size_take_le [of a "take b shs"] by simp
qed

lemma Push_all_Clear:
  "\<exists>tv. Push_all (TensorVector_Clear tv0) shs = Inr tv \<and>
        offset tv = offsets_from 0 shs \<and> shapes tv = shs \<and>
        (shs \<noteq> [] \<longrightarrow> length (content tv) = unat (last (offset tv)))"
  using Push_all_from [of "TensorVector_Clear tv0" shs]
  by (simp add: TensorVector_Clear_def)

lemma at_valid:
  assumes "offset tv = offsets_from 0 shs" "shapes tv = shs"
    and "i < length shs" "length shs < 2 ^ 64"
  shows "TensorVector_at tv (of_nat i) = Inr \<lparr>vptr = offset tv ! i, vshape = shs ! i\<rparr>"
  using assms unat_Suc_index [OF assms(3,4)] offsets_from_step [OF assms(3), of 0]
  by (simp add: TensorVector_at_def CHECK_def utils_Check_def length_offsets_from)

lemma read_view_other:
  assumes w: "write_view buf v xs = Inr buf'"
    and d: "unat (vptr w) + unat (Shape_Size (vshape w)) \<le> unat (vptr v) \<or>
            unat (vptr v) + unat (Shape_Size (vshape v)) \<le> unat (vptr w)"
    and b: "unat (vptr w) + unat (Shape_Size (vshape w)) \<le> length buf"
  shows "read_view buf' w = read_view buf w"
proof -
  let ?p = "unat (vptr v)" and ?n = "unat (Shape_Size (vshape v))"
  let ?q = "unat (vptr w)" and ?m = "unat (Shape_Size (vshape w))"
  from w have len: "length xs = ?n" and fit: "?p + ?n \<le> length buf"
    and buf': "buf' = take ?p buf @ xs @ drop (?p + ?n) buf"
    by (auto simp: write_view_def split: if_splits)
  have l: "length buf' = length buf" using len fit buf' by simp
  from d have "take ?m (drop ?q buf') = take ?m (drop ?q buf)"
  proof
    assume a: "?q + ?m \<le> ?p"
    then have "take ?m (drop ?q buf') = take ?m (drop ?q (take ?p buf))"
      using fit unfolding buf' by simp
    also have "\<dots> = take ?m (drop ?q buf)"
      using a by (simp add: drop_take min_def)
    finally show ?thesis .
  next
    assume a: "?p + ?n \<le> ?q"
    then have "drop ?q buf' = drop ?q buf"
      using fit len unfolding buf' by simp
    then show ?thesis by simp
  qed
  then show ?thesis using l b by (simp add: read_view_def)
qed

text \<open>
  C4, in the form that holds of the code.  After every sequence of pushes into a
  fresh or cleared store, the store holds the pushed shapes, the offset table
  has N + 1 entries, \<open>offset[0] = 0\<close>, and \<open>offset[i + 1] - offset[i]\<close> is the size
  of shape \<open>i\<close> for every \<open>i < N\<close> (in \<^verbatim>\<open>size_t\<close> arithmetic).  When the sizes of the
  pushed shapes add up to less than \<open>2 ^ 64\<close>, so that no offset wraps around, the
  view that \<^verbatim>\<open>operator[]\<close> returns for \<open>i\<close> has shape \<open>i\<close>, the elements written
  through it are the elements read back through the view that \<^verbatim>\<open>operator[]\<close>
  returns afterwards, and the elements seen through every other view are
  unchanged.
\<close>

theorem offset_table_invariant:
  "\<exists>tv. Push_all (TensorVector_Clear tv0) shs = Inr tv \<and>
     shapes tv = shs \<and> length (offset tv) = length shs + 1 \<and> offset tv ! 0 = 0 \<and>
     (\<forall>i<length shs. offset tv ! (i + 1) - offset tv ! i = Shape_Size (shs ! i)) \<and>
     (length shs < 2 ^ 64 \<and> total_size shs < 2 ^ 64 \<longrightarrow>
       (\<forall>i<length shs. \<forall>xs. length xs = unat (Shape_Size (shs ! i)) \<longrightarrow>
         (\<exists>v buf. TensorVector_at tv (of_nat i) = Inr v \<and> vshape v = shs ! i \<and>
            write_view (content tv) v xs = Inr buf \<and>
            TensorVector_at (tv\<lparr>content := buf\<rparr>) (of_nat i) = Inr v \<and>
            read_view buf v = Inr xs \<and>
            (\<forall>j<length shs. j \<noteq> i \<longrightarrow>
               (\<exists>w. TensorVector_at tv (of_nat j) = Inr w \<and>
                    read_view buf w = read_view (content tv) w)))))"
proof -
  from Push_all_Clear [of tv0 shs] obtain tv where
    p: "Push_all (TensorVector_Clear tv0) shs = Inr tv"
    and o: "offset tv = offsets_from 0 shs" and s: "shapes tv = shs"
    and c: "shs \<noteq> [] \<longrightarrow> length (content tv) = unat (last (offset tv))"
    by blast
  have step: "\<forall>i<length shs. offset tv ! (i + 1) - offset tv ! i = Shape_Size (shs ! i)"
    using offsets_from_step [of _ shs 0] o by simp
  have rb: "\<exists>v buf. TensorVector_at tv (of_nat i) = Inr v \<and> vshape v = shs ! i \<and>
            write_view (content tv) v xs = Inr buf \<and>
            TensorVector_at (tv\<lparr>content := buf\<rparr>) (of_nat i) = Inr v \<and>
            read_view buf v = Inr xs \<and>
            (\<forall>j<length shs. j \<noteq> i \<longrightarrow>
               (\<exists>w. TensorVector_at tv (of_nat j) = Inr w \<and>
                    read_view buf w = read_view (content tv) w))"
    if n: "length shs < 2 ^ 64" and t: "total_size shs < 2 ^ 64"
      and i: "i < length shs" and xs: "length xs = unat (Shape_Size (shs ! i))"
    for i xs
  proof -
    have ne: "shs \<noteq> []" using i by auto
    have t0: "unat (0::size_t) + total_size shs < 2 ^ 64" using t by simp
    have off: "unat (offset tv ! k) = total_size (take k shs)" if "k \<le> length shs" for k
      using unat_offsets_from [OF t0 that] o by simp
    have len: "length (content tv) = total_size shs"
      using c ne o off [of "length shs"] by (simp add: last_offsets_from)
    let ?v = "\<lparr>vptr = offset tv ! i, vshape = shs ! i\<rparr>"
    have at: "TensorVector_at tv (of_nat i) = Inr ?v"
      by (rule at_valid [OF o s i n])
    have at': "TensorVector_at (tv\<lparr>content := buf\<rparr>) (of_nat i) = Inr ?v" for buf
      using at_valid [of "tv\<lparr>content := buf\<rparr>" shs i] o s i n by simp
    have inb: "unat (vptr ?v) + unat (Shape_Size (vshape ?v)) \<le> length (content tv)"
      using off [of i] i total_size_take_Suc [OF i] total_size_take_le [of "Suc i" shs] len
      by simp
    from read_write_view [of xs ?v "content tv"] xs inb obtain buf where
      w: "write_view (content tv) ?v xs = Inr buf" and r: "read_view buf ?v = Inr xs"
      by auto
    have other: "\<exists>w. TensorVector_at tv (of_nat j) = Inr w \<and>
                    read_view buf w = read_view (content tv) w"
      if j: "j < length shs" and ji: "j \<noteq> i" for j
    proof -
      let ?w = "\<lparr>vptr = offset tv ! j, vshape = shs ! j\<rparr>"
      have atj: "TensorVector_at tv (of_nat j) = Inr ?w"
        by (rule at_valid [OF o s j n])
      have inbj: "unat (vptr ?w) + unat (Shape_Size (vshape ?w)) \<le> length (content tv)"
        using off [of j] j total_size_take_Suc [OF j] total_size_take_le [of "Suc j" shs] len
        by simp
      have "unat (vptr ?w) + unat (Shape_Size (vshape ?w)) \<le> unat (vptr ?v) \<or>
            unat (vptr ?v) + unat (Shape_Size (vshape ?v)) \<le> unat (vptr ?w)"
      proof (cases "j < i")
        case True
        then have "total_size (take (Suc j) shs) \<le> total_size (take i shs)"
          by (intro total_size_take_mono) simp
        then show ?thesis
          using off [of j] off [of i] i j total_size_take_Suc [OF j] by simp
      next
        case False
        with ji have "i < j" by simp
        then have "total_size (take (Suc i) shs) \<le> total_size (take j shs)"
          by (intro total_size_take_mono) simp
        then show ?thesis
          using off [of j] off [of i] i j total_size_take_Suc [OF i] by simp
      qed
      from read_view_other [OF w this inbj] atj show ?thesis by blast
    qed
    show ?thesis using at at' w r other by auto
  qed
  show ?thesis
    using p s o step rb by (auto simp: length_offsets_from offsets_from_0)
qed

theorem offset_table_invariant_witness:
  "Push_all (TensorVector_Clear TensorVector_new) [[2], [2, 3]] =
     Inr \<lparr>offset = [0, 2, 8], content = [0, 0, 0, 0, 0, 0, 0, 0 :: nat],
          shapes = [[2], [2, 3]]\<rparr> \<and>
   (1::nat) < length [[2], [2, 3 :: index_t]] \<and>
   Shape_Size [2, 3] = [0, 2, 8] ! (1 + 1) - [0, 2, 8] ! 1 \<and>
   length [[2], [2, 3 :: index_t]] < 2 ^ 64 \<and> total_size [[2], [2, 3]] < 2 ^ 64 \<and>
   length [1, 2, 3, 4, 5, 6 :: nat] = unat (Shape_Size [2, 3]) \<and>
   TensorVector_at \<lparr>offset = [0, 2, 8], content = [0, 0, 0, 0, 0, 0, 0, 0 :: nat],
       shapes = [[2], [2, 3]]\<rparr> 1 = Inr \<lparr>vptr = 2, vshape = [2, 3]\<rparr> \<and>
   write_view [0, 0, 0, 0, 0, 0, 0, 0 :: nat] \<lparr>vptr = 2, vshape = [2, 3]\<rparr> [1, 2, 3, 4, 5, 6] =
     Inr [0, 0, 1, 2, 3, 4, 5, 6] \<and>
   read_view [0, 0, 1, 2, 3, 4, 5, 6 :: nat] \<lparr>vptr = 2, vshape = [2, 3]\<rparr> =
     Inr [1, 2, 3, 4, 5, 6] \<and>
   read_view [0, 0, 1, 2, 3, 4, 5, 6 :: nat] \<lparr>vptr = 0, vshape = [2]\<rparr> = Inr [0, 0]"
proof -
  have pushed: "Push_all (TensorVector_Clear TensorVector_new) [[2], [2, 3]] =
     Inr \<lparr>offset = [0, 2, 8], content = [0, 0, 0, 0, 0, 0, 0, 0 :: nat],
          shapes = [[2], [2, 3]]\<rparr>"
    by code_simp
  have views: "(1::nat) < length [[2], [2, 3 :: index_t]] \<and>
   Shape_Size [2, 3] = [0, 2, 8] ! (1 + 1) - [0, 2, 8] ! 1 \<and>
   length [[2], [2, 3 :: index_t]] < 2 ^ 64 \<and> total_size [[2], [2, 3]] < 2 ^ 64 \<and>
   length [1, 2, 3, 4, 5, 6 :: nat] = unat (Shape_Size [2, 3]) \<and>
   TensorVector_at \<lparr>offset = [0, 2, 8], content = [0, 0, 0, 0, 0, 0, 0, 0 :: nat],
       shapes = [[2], [2, 3]]\<rparr> 1 = Inr \<lparr>vptr = 2, vshape = [2, 3]\<rparr> \<and>
   write_view [0, 0, 0, 0, 0, 0, 0, 0 :: nat] \<lparr>vptr = 2, vshape = [2, 3]\<rparr> [1, 2, 3, 4, 5, 6] =
     Inr [0, 0, 1, 2, 3, 4, 5, 6] \<and>
   read_view [0, 0, 1, 2, 3, 4, 5, 6 :: nat] \<lparr>vptr = 2, vshape = [2, 3]\<rparr> =
     Inr [1, 2, 3, 4, 5, 6] \<and>
   read_view [0, 0, 1, 2, 3, 4, 5, 6 :: nat] \<lparr>vptr = 0, vshape = [2]\<rparr> = Inr [0, 0]"
    by (simp add: TensorVector_at_def CHECK_def utils_Check_def Shape_Size_def
        write_view_def read_view_def total_size_def)
  show ?thesis
    using offset_table_invariant [of "TensorVector_new :: nat TensorVector" "[[2], [2, 3]]"]
      pushed views
    by blast
qed

text \<open>
  The claim as stated, for every sequence of pushes, fails when an offset wraps
  around: after a push of 2 elements and a push of a shape of
  \<open>1722007169 * 3570783445 * 3 = 2 ^ 64 - 1\<close> elements the offsets are 0, 2, 1 and
  the buffer is resized to 1 element.  Both checks of \<^verbatim>\<open>operator[]\<close> pass for
  index 0, and the view of 2 elements that it returns exceeds the buffer.
\<close>

theorem offset_table_invariant_counterexample:
  "Push_all (TensorVector_Clear TensorVector_new) [[2], [1722007169, 3570783445, 3]] =
     Inr \<lparr>offset = [0, 2, 1], content = [0 :: nat],
          shapes = [[2], [1722007169, 3570783445, 3]]\<rparr> \<and>
   TensorVector_at \<lparr>offset = [0, 2, 1], content = [0 :: nat],
       shapes = [[2], [1722007169, 3570783445, 3]]\<rparr> 0 = Inr \<lparr>vptr = 0, vshape = [2]\<rparr> \<and>
   write_view [0 :: nat] \<lparr>vptr = 0, vshape = [2]\<rparr> [7, 8] = Inl OutOfBounds"
  by (simp add: TensorVector_Clear_def TensorVector_new_def TensorVector_Push_def
      TensorVector_at_def CHECK_def utils_Check_def Shape_Size_def vector_resize_def
      write_view_def Let_def)

section \<open>Instance store: access out of range\<close>

text \<open>
  The first \<^verbatim>\<open>CHECK\<close> of \<^verbatim>\<open>operator[]\<close> rejects every index from \<open>N\<close> on, except the
  largest \<^verbatim>\<open>size_t\<close>: there \<^verbatim>\<open>i + 1\<close> wraps around to 0, the check passes, and the
  second \<^verbatim>\<open>CHECK\<close> reads \<^verbatim>\<open>shape_[i]\<close> beyond the end of the vector.
\<close>

lemma TensorVector_at_out_of_range:
  assumes "length (offset tv) = Suc (length (shapes tv))"
    and "length (shapes tv) \<le> unat i" and "i \<noteq> - 1"
  shows "TensorVector_at tv i = Inl (Fatal ''Check failed'')"
proof -
  have "1 + i \<noteq> 0"
    using assms(3) by (metis add.commute add_eq_0_iff)
  from unatSuc [OF this] have "unat (i + 1) = Suc (unat i)"
    by (simp add: add.commute)
  then show ?thesis
    using assms(1,2) by (simp add: TensorVector_at_def CHECK_def utils_Check_def)
qed

lemma TensorVector_at_max:
  assumes "offset tv \<noteq> []" and "length (shapes tv) < 2 ^ 64"
  shows "TensorVector_at tv (- 1) = Inl OutOfBounds"
proof -
  have "unat (- 1 :: size_t) = 2 ^ 64 - 1"
    by (simp add: unsigned_minus_1_eq_mask mask_eq_exp_minus_1)
  then have "\<not> unat (- 1 :: size_t) < length (shapes tv)"
    using assms(2) by simp
  then show ?thesis
    using assms(1) by (simp add: TensorVector_at_def CHECK_def utils_Check_def)
qed

text \<open>
  C5 at the failing input.  \<^verbatim>\<open>Back()\<close> on an empty store, fresh or cleared, does
  not fail the range check: \<^verbatim>\<open>Size() - 1\<close> is the largest \<^verbatim>\<open>size_t\<close>, the check
  \<^verbatim>\<open>i + 1 < offset_.size()\<close> compares 0 with 1 and passes, and the next statement
  reads \<^verbatim>\<open>shape_[i]\<close> of the empty vector \<^verbatim>\<open>shape_\<close>, out of bounds.  The same holds
  of \<^verbatim>\<open>InstVector::Back\<close>, whose \<^verbatim>\<open>operator[]\<close> reads \<^verbatim>\<open>index_[i]\<close> without a check.
\<close>

theorem Back_on_empty_store:
  "TensorVector_Back (TensorVector_new :: 'a TensorVector) = Inl OutOfBounds \<and>
   TensorVector_Back (TensorVector_Clear tv) = Inl OutOfBounds \<and>
   InstVector_Back (InstVector_new :: 'b InstVector) = Inl OutOfBounds \<and>
   InstVector_Back (InstVector_Clear iv) = Inl OutOfBounds"
proof (intro conjI)
  have "TensorVector_at (TensorVector_Clear tv) (- 1) = Inl OutOfBounds"
    by (rule TensorVector_at_max) (simp_all add: TensorVector_Clear_def)
  then show "TensorVector_Back (TensorVector_Clear tv) = Inl OutOfBounds"
    by (simp add: TensorVector_Back_def TensorVector_Size_def TensorVector_Clear_def)
  have "TensorVector_at (TensorVector_new :: 'a TensorVector) (- 1) = Inl OutOfBounds"
    by (rule TensorVector_at_max) (simp_all add: TensorVector_new_def TensorVector_Clear_def)
  then show "TensorVector_Back (TensorVector_new :: 'a TensorVector) = Inl OutOfBounds"
    by (simp add: TensorVector_Back_def TensorVector_Size_def TensorVector_new_def
        TensorVector_Clear_def)
  show "InstVector_Back (InstVector_Clear iv) = Inl OutOfBounds"
    by (simp add: InstVector_Back_def InstVector_Size_def InstVector_Clear_def
        InstVector_at_def)
  show "InstVector_Back (InstVector_new :: 'b InstVector) = Inl OutOfBounds"
    by (simp add: InstVector_Back_def InstVector_Size_def InstVector_new_def
        InstVector_at_def)
qed

text \<open>
  A sequence of pushes into an \<^verbatim>\<open>InstVector\<close> is the sequence of the data shapes
  pushed into \<^verbatim>\<open>data_\<close> and the sequence of the label shapes pushed into \<^verbatim>\<open>label_\<close>,
  so what holds of a \<^verbatim>\<open>TensorVector\<close> after pushes holds of both.
\<close>

lemma TensorVector_Push_offset:
  "TensorVector_Push tv sh = Inr tv' \<Longrightarrow> offset tv' \<noteq> []"
  by (auto simp: TensorVector_Push_def Let_def split: if_splits)

lemma InstVector_Push_all_components:
  assumes "offset (iv_data iv) \<noteq> []" "offset (iv_label iv) \<noteq> []"
  shows "\<exists>iv'. InstVector_Push_all iv xs = Inr iv' \<and>
           iv_index iv' = iv_index iv @ map fst xs \<and>
           Push_all (iv_data iv) (map (\<lambda>x. fst (snd x)) xs) = Inr (iv_data iv') \<and>
           Push_all (iv_label iv) (map (\<lambda>x. snd (snd x)) xs) = Inr (iv_label iv')"
  using assms
proof (induction xs arbitrary: iv)
  case Nil
  then show ?case by simp
next
  case (Cons x xs)
  obtain index dshape lshape where x: "x = (index, dshape, lshape)"
    by (cases x) auto
  from Cons.prems obtain d l where
    d: "TensorVector_Push (iv_data iv) dshape = Inr d"
    and l: "TensorVector_Push (iv_label iv) lshape = Inr l"
    by (auto simp: TensorVector_Push_def Let_def)
  let ?iv1 = "iv\<lparr>iv_index := iv_index iv @ [index], iv_data := d, iv_label := l\<rparr>"
  have p: "InstVector_Push iv index dshape lshape = Inr ?iv1"
    using d l by (simp add: InstVector_Push_def)
  have "offset (iv_data ?iv1) \<noteq> []" "offset (iv_label ?iv1) \<noteq> []"
    using TensorVector_Push_offset [OF d] TensorVector_Push_offset [OF l] by simp_all
  from Cons.IH [OF this] show ?case
    using x p d l by auto
qed

section \<open>Batch source: the sequence of batches\<close>

lemma Next_frame:
  "img (snd (Next it)) = img it" "batch_size (snd (Next it)) = batch_size it"
  "labels (snd (Next it)) = labels it" "inst (snd (Next it)) = inst it"
  "inst_offset (snd (Next it)) = inst_offset it" "rnd (snd (Next it)) = rnd it"
  by (simp_all add: Next_def)

lemma Nexts_frame:
  "img (Nexts k it) = img it" "batch_size (Nexts k it) = batch_size it"
  "labels (Nexts k it) = labels it" "inst (Nexts k it) = inst it"
  "inst_offset (Nexts k it) = inst_offset it" "rnd (Nexts k it) = rnd it"
  by (induction k) (simp_all add: Next_frame)

lemma unat_of_nat_32: "n < 2 ^ 32 \<Longrightarrow> unat (of_nat n :: index_t) = n"
  by (simp add: unat_of_nat)

lemma index_test:
  assumes "c + unat bw < 2 ^ 32" "N < 2 ^ 32"
  shows "((of_nat c :: index_t) + bw \<le> of_nat N) = (c + unat bw \<le> N)"
    and "(of_nat c :: index_t) + bw = of_nat (c + unat bw)"
proof -
  have c: "unat (of_nat c :: index_t) = c" using assms(1) by (simp add: unat_of_nat_32)
  have "unat (of_nat c :: index_t) + unat bw < 2 ^ LENGTH(32)" using assms(1) c by simp
  then have s: "unat ((of_nat c :: index_t) + bw) = c + unat bw"
    using unat_add_lem [of "of_nat c :: index_t" bw] c by simp
  show "((of_nat c :: index_t) + bw \<le> of_nat N) = (c + unat bw \<le> N)"
    using s assms(2) by (simp add: word_le_nat_alt unat_of_nat_32)
  show "(of_nat c :: index_t) + bw = of_nat (c + unat bw)"
    by simp
qed

lemma cursor_bound:
  assumes "0 < (b::nat)" "b < 2 ^ 32" "N < 2 ^ 31"
  shows "min k (N div b) * b + b < 2 ^ 32" and "min k (N div b) * b \<le> N"
proof -
  have q: "(N div b) * b \<le> N" by simp
  have "min k (N div b) * b \<le> (N div b) * b" by simp
  with q show le: "min k (N div b) * b \<le> N" by linarith
  have p: "(2::nat) ^ 32 = 2 * 2 ^ 31" by simp
  show "min k (N div b) * b + b < 2 ^ 32"
  proof (cases "N div b = 0")
    case True
    then show ?thesis using assms(2) by simp
  next
    case False
    then have "b \<le> N" using assms(1) by (metis div_less leI)
    with le assms(3) show ?thesis unfolding p by linarith
  qed
qed

lemma loc_Nexts:
  assumes b: "0 < unat (batch_size it)" and n: "length (img it) < 2 ^ 31"
  shows "loc (Nexts k (BeforeFirst it)) =
           of_nat (min k (length (img it) div unat (batch_size it)) * unat (batch_size it))"
proof (induction k)
  case 0
  then show ?case by (simp add: BeforeFirst_def)
next
  case (Suc k)
  let ?b = "unat (batch_size it)" and ?N = "length (img it)"
  let ?q = "?N div ?b"
  let ?it = "Nexts k (BeforeFirst it)"
  have fr: "img ?it = img it" "batch_size ?it = batch_size it"
    by (simp_all add: Nexts_frame BeforeFirst_def)
  have b32: "?b < 2 ^ 32" using unsigned_less [of "batch_size it"] by simp
  have n32: "?N < 2 ^ 32" using n by (simp add: order_less_trans [OF n])
  note cb = cursor_bound [OF b b32 n, of k]
  note t = index_test [OF cb(1) n32]
  show ?case
  proof (cases "k < ?q")
    case True
    then have "Suc k * ?b \<le> ?q * ?b" by (intro mult_le_mono1) simp
    then have a: "k * ?b + ?b \<le> ?q * ?b" by (simp add: add.commute)
    have qb: "?q * ?b \<le> ?N" by simp
    note le = order_trans [OF a qb]
    have m: "min k ?q = k" "min (Suc k) ?q = Suc k" using True by simp_all
    show ?thesis
      using Suc.IH t le fr unfolding m by (simp add: Next_def)
  next
    case False
    then have m: "min k ?q = ?q" "min (Suc k) ?q = ?q" by simp_all
    have "?N < ?q * ?b + ?b"
      using b by (metis add.commute dividend_less_div_times)
    then show ?thesis
      using Suc.IH t fr unfolding m by (simp add: Next_def)
  qed
qed

lemma Next_returns:
  assumes b: "0 < unat (batch_size it)" and n: "length (img it) < 2 ^ 31"
  shows "fst (Next (Nexts k (BeforeFirst it))) =
           (k < length (img it) div unat (batch_size it))"
proof -
  let ?b = "unat (batch_size it)" and ?N = "length (img it)"
  let ?q = "?N div ?b"
  let ?it = "Nexts k (BeforeFirst it)"
  have fr: "img ?it = img it" "batch_size ?it = batch_size it"
    by (simp_all add: Nexts_frame BeforeFirst_def)
  have b32: "?b < 2 ^ 32" using unsigned_less [of "batch_size it"] by simp
  have n32: "?N < 2 ^ 32" using n by (simp add: order_less_trans [OF n])
  note cb = cursor_bound [OF b b32 n, of k]
  note t = index_test [OF cb(1) n32]
  show ?thesis
  proof (cases "k < ?q")
    case True
    then have "Suc k * ?b \<le> ?q * ?b" by (intro mult_le_mono1) simp
    then have a: "k * ?b + ?b \<le> ?q * ?b" by (simp add: add.commute)
    have qb: "?q * ?b \<le> ?N" by simp
    note le = order_trans [OF a qb]
    have m: "min k ?q = k" using True by simp
    show ?thesis
      using loc_Nexts [OF b n, of k] t(1) le fr True unfolding m by (simp add: Next_def)
  next
    case False
    then have m: "min k ?q = ?q" by simp
    have "?N < ?q * ?b + ?b"
      using b by (metis add.commute dividend_less_div_times)
    then show ?thesis
      using loc_Nexts [OF b n, of k] t(1) fr False unfolding m by (simp add: Next_def)
  qed
qed

lemma batch_content_Next:
  assumes fit: "c + unat (batch_size it) \<le> length (img it)" and n: "length (img it) < 2 ^ 32"
    and ld: "length (labels it) = length (img it)" "length (inst it) = length (img it)"
    and l: "loc it = of_nat c"
  shows "fst (Next it)"
    and "batch_content (snd (Next it)) =
           Inr (take (unat (batch_size it)) (drop c (img it)),
                take (unat (batch_size it)) (drop c (labels it)),
                take (unat (batch_size it)) (drop c (inst it)))"
proof -
  have c32: "c + unat (batch_size it) < 2 ^ 32" using fit n by simp
  then have c: "unat (of_nat c :: index_t) = c" by (simp add: unat_of_nat_32)
  show t: "fst (Next it)"
    using index_test(1) [OF c32 n] fit l by (simp add: Next_def)
  then have "snd (Next it) = it\<lparr>out_batch := \<lparr>data_dptr = Some (loc it), label_dptr = Some (loc it),
                                inst_index = Some (loc it)\<rparr>,
                  loc := loc it + batch_size it\<rparr>"
    by (simp add: Next_def split: if_splits)
  then show "batch_content (snd (Next it)) =
           Inr (take (unat (batch_size it)) (drop c (img it)),
                take (unat (batch_size it)) (drop c (labels it)),
                take (unat (batch_size it)) (drop c (inst it)))"
    using fit ld l c by (simp add: batch_content_def batch_rows_def Value_def)
qed

text \<open>
  C6.  For a loaded dataset of N instances (N below \<open>2 ^ 31\<close>, as the \<^verbatim>\<open>int\<close> count of
  the image file) and a batch size \<open>b \<ge> 1\<close>, after \<^verbatim>\<open>BeforeFirst\<close> the call number
  \<open>k\<close> of \<^verbatim>\<open>Next\<close> (counted from 0) returns a batch exactly when at least \<open>b\<close>
  instances remain past the cursor, which is exactly when \<open>k < N div b\<close>: the
  first \<open>N div b\<close> calls return the consecutive full batches and every later call
  returns false.  After any number of calls, \<^verbatim>\<open>BeforeFirst\<close> followed by \<^verbatim>\<open>Next\<close>
  produces the first batch again, and images, labels, identities and the state
  of the random generator are those of before.
\<close>

theorem Next_contract:
  assumes b: "0 < unat (batch_size it)" and n: "length (img it) < 2 ^ 31"
    and ld: "length (labels it) = length (img it)" "length (inst it) = length (img it)"
  shows "fst (Next (Nexts k (BeforeFirst it))) =
           (unat (loc (Nexts k (BeforeFirst it))) + unat (batch_size it) \<le> length (img it)) \<and>
         fst (Next (Nexts k (BeforeFirst it))) =
           (k < length (img it) div unat (batch_size it)) \<and>
         (k < length (img it) div unat (batch_size it) \<longrightarrow>
            batch_content (snd (Next (Nexts k (BeforeFirst it)))) =
              Inr (take (unat (batch_size it)) (drop (k * unat (batch_size it)) (img it)),
                   take (unat (batch_size it)) (drop (k * unat (batch_size it)) (labels it)),
                   take (unat (batch_size it)) (drop (k * unat (batch_size it)) (inst it)))) \<and>
         (0 < length (img it) div unat (batch_size it) \<longrightarrow>
            fst (Next (BeforeFirst (Nexts k (BeforeFirst it)))) \<and>
            batch_content (snd (Next (BeforeFirst (Nexts k (BeforeFirst it))))) =
              batch_content (snd (Next (BeforeFirst it)))) \<and>
         img (BeforeFirst (Nexts k (BeforeFirst it))) = img it \<and>
         labels (BeforeFirst (Nexts k (BeforeFirst it))) = labels it \<and>
         inst (BeforeFirst (Nexts k (BeforeFirst it))) = inst it \<and>
         rnd (BeforeFirst (Nexts k (BeforeFirst it))) = rnd it"
proof -
  let ?b = "unat (batch_size it)" and ?N = "length (img it)"
  let ?q = "?N div ?b"
  let ?it = "Nexts k (BeforeFirst it)"
  have fr: "img ?it = img it" "batch_size ?it = batch_size it" "labels ?it = labels it"
    "inst ?it = inst it" "rnd ?it = rnd it"
    by (simp_all add: Nexts_frame BeforeFirst_def)
  have b32: "?b < 2 ^ 32" using unsigned_less [of "batch_size it"] by simp
  have n32: "?N < 2 ^ 32" using n by (simp add: order_less_trans [OF n])
  note cb = cursor_bound [OF b b32 n, of k]
  have lc: "loc ?it = of_nat (min k ?q * ?b)" by (rule loc_Nexts [OF b n])
  have "min k ?q * ?b < 2 ^ 32" using cb(2) n32 by (rule le_less_trans)
  then have ul: "unat (loc ?it) = min k ?q * ?b"
    unfolding lc by (rule unat_of_nat_32)
  have r2: "fst (Next ?it) = (k < ?q)" by (rule Next_returns [OF b n])
  have "(k < ?q) = (min k ?q * ?b + ?b \<le> ?N)"
  proof (cases "k < ?q")
    case True
    then have "Suc k * ?b \<le> ?q * ?b" by (intro mult_le_mono1) simp
    then have a: "k * ?b + ?b \<le> ?q * ?b" by (simp add: add.commute)
    have qb: "?q * ?b \<le> ?N" by simp
    have m: "min k ?q = k" using True by simp
    show ?thesis using order_trans [OF a qb] True unfolding m by simp
  next
    case False
    then have m: "min k ?q = ?q" by simp
    have "?N < ?q * ?b + ?b"
      using b by (metis add.commute dividend_less_div_times)
    then show ?thesis using False unfolding m by simp
  qed
  then have r1: "fst (Next ?it) = (unat (loc ?it) + ?b \<le> ?N)"
    unfolding ul r2 .
  have r3: "batch_content (snd (Next ?it)) =
              Inr (take ?b (drop (k * ?b) (img it)), take ?b (drop (k * ?b) (labels it)),
                   take ?b (drop (k * ?b) (inst it)))" if "k < ?q"
  proof -
    have m: "min k ?q = k" using that by simp
    have "k * ?b + ?b \<le> ?N" using r1 r2 that unfolding ul m by simp
    from batch_content_Next(2) [of "k * ?b" ?it] this n32 ld lc fr show ?thesis
      unfolding m by simp
  qed
  have r4: "fst (Next (BeforeFirst ?it)) \<and>
            batch_content (snd (Next (BeforeFirst ?it))) =
              batch_content (snd (Next (BeforeFirst it)))" if "0 < ?q"
  proof -
    have "?b \<le> ?N" using that b by (metis div_less leI less_numeral_extra(3))
    then have f: "0 + ?b \<le> ?N" by simp
    have 1: "fst (Next (BeforeFirst ?it))"
      using batch_content_Next(1) [of 0 "BeforeFirst ?it"] f n32 ld fr
      by (simp add: BeforeFirst_def)
    have 2: "batch_content (snd (Next (BeforeFirst ?it))) =
           Inr (take ?b (drop 0 (img it)), take ?b (drop 0 (labels it)), take ?b (drop 0 (inst it)))"
      using batch_content_Next(2) [of 0 "BeforeFirst ?it"] f n32 ld fr
      by (simp add: BeforeFirst_def)
    have 3: "batch_content (snd (Next (BeforeFirst it))) =
           Inr (take ?b (drop 0 (img it)), take ?b (drop 0 (labels it)), take ?b (drop 0 (inst it)))"
      using batch_content_Next(2) [of 0 "BeforeFirst it"] f n32 ld
      by (simp add: BeforeFirst_def)
    show ?thesis using 1 2 3 by simp
  qed
  show ?thesis
    using r1 r2 r3 r4 fr by (simp add: BeforeFirst_def)
qed

theorem Next_contract_witness:
  "0 < unat (batch_size (example_iterator 25 10 0)) \<and>
   length (img (example_iterator 25 10 0)) < 2 ^ 31 \<and>
   length (labels (example_iterator 25 10 0)) = length (img (example_iterator 25 10 0)) \<and>
   length (inst (example_iterator 25 10 0)) = length (img (example_iterator 25 10 0)) \<and>
   length (img (example_iterator 25 10 0)) div unat (batch_size (example_iterator 25 10 0)) = 2 \<and>
   fst (Next (Nexts 0 (BeforeFirst (example_iterator 25 10 0)))) \<and>
   fst (Next (Nexts 1 (BeforeFirst (example_iterator 25 10 0)))) \<and>
   \<not> fst (Next (Nexts 2 (BeforeFirst (example_iterator 25 10 0)))) \<and>
   batch_content (snd (Next (Nexts 1 (BeforeFirst (example_iterator 25 10 0))))) =
     Inr ([110, 111, 112, 113, 114, 115, 116, 117, 118, 119],
          [0, 1, 2, 3, 4, 5, 6, 7, 8, 9],
          [10, 11, 12, 13, 14, 15, 16, 17, 18, 19]) \<and>
   batch_content (snd (Next (BeforeFirst (Nexts 3 (BeforeFirst (example_iterator 25 10 0)))))) =
     batch_content (snd (Next (BeforeFirst (example_iterator 25 10 0))))"
proof -
  have e: "0 < unat (batch_size (example_iterator 25 10 0))"
    "length (img (example_iterator 25 10 0)) < 2 ^ 31"
    "length (labels (example_iterator 25 10 0)) = length (img (example_iterator 25 10 0))"
    "length (inst (example_iterator 25 10 0)) = length (img (example_iterator 25 10 0))"
    by (simp_all add: example_iterator_def identities_def)
  have q: "length (img (example_iterator 25 10 0)) div
             unat (batch_size (example_iterator 25 10 0)) = 2"
    by (simp add: example_iterator_def)
  have c: "take 10 (drop 10 (img (example_iterator 25 10 0))) =
             [110, 111, 112, 113, 114, 115, 116, 117, 118, 119]"
    "take 10 (drop 10 (labels (example_iterator 25 10 0))) = [0, 1, 2, 3, 4, 5, 6, 7, 8, 9]"
    "take 10 (drop 10 (inst (example_iterator 25 10 0))) =
       [10, 11, 12, 13, 14, 15, 16, 17, 18, 19]"
    by code_simp+
  have b: "unat (batch_size (example_iterator 25 10 0)) = 10"
    by (simp add: example_iterator_def)
  have q': "length (img (example_iterator 25 10 0)) div 10 = 2"
    by (simp add: example_iterator_def)
  let ?X = "example_iterator 25 10 0"
  note n0 = Next_contract [OF e, of 0, unfolded b q']
  note n1 = Next_contract [OF e, of 1, unfolded b q']
  note n2 = Next_contract [OF e, of 2, unfolded b q']
  note n3 = Next_contract [OF e, of 3, unfolded b q']
  have f0: "fst (Next (Nexts 0 (BeforeFirst ?X)))"
    using n0 [THEN conjunct2, THEN conjunct1] by simp
  have f1: "fst (Next (Nexts 1 (BeforeFirst ?X)))"
    using n1 [THEN conjunct2, THEN conjunct1] by simp
  have f2: "\<not> fst (Next (Nexts 2 (BeforeFirst ?X)))"
    using n2 [THEN conjunct2, THEN conjunct1] by simp
  have c1: "batch_content (snd (Next (Nexts 1 (BeforeFirst ?X)))) =
     Inr ([110, 111, 112, 113, 114, 115, 116, 117, 118, 119],
          [0, 1, 2, 3, 4, 5, 6, 7, 8, 9],
          [10, 11, 12, 13, 14, 15, 16, 17, 18, 19])"
    using n1 [THEN conjunct2, THEN conjunct2, THEN conjunct1] c by simp
  have r: "batch_content (snd (Next (BeforeFirst (Nexts 3 (BeforeFirst ?X))))) =
     batch_content (snd (Next (BeforeFirst ?X)))"
    using n3 [THEN conjunct2, THEN conjunct2, THEN conjunct2, THEN conjunct1] by simp
  show ?thesis
    using e q f0 f1 f2 c1 r by (intro conjI)
qed
section \<open>Batch source: shuffling\<close>

lemma shuffle_rows_ok:
  assumes "\<forall>x\<in>set xs. unat (x - off) < length im \<and> unat (x - off) < length ls"
    and "i + length xs \<le> length tmpimg" and "i + length xs \<le> length tmplabel"
  shows "shuffle_rows off im ls xs i (tmpimg, tmplabel) =
           Inr (take i tmpimg @ map (\<lambda>x. im ! unat (x - off)) xs @ drop (i + length xs) tmpimg,
                take i tmplabel @ map (\<lambda>x. ls ! unat (x - off)) xs @
                  drop (i + length xs) tmplabel)"
  using assms
proof (induction xs arbitrary: i tmpimg tmplabel)
  case Nil
  then show ?case by simp
next
  case (Cons x xs)
  let ?r = "unat (x - off)"
  have i: "i < length tmpimg" "i < length tmplabel" using Cons.prems by simp_all
  have r: "?r < length im" "?r < length ls" using Cons.prems by simp_all
  have step: "shuffle_rows off im ls (x # xs) i (tmpimg, tmplabel) =
      shuffle_rows off im ls xs (Suc i) (tmpimg[i := im ! ?r], tmplabel[i := ls ! ?r])"
    using i r by (simp add: Let_def)
  have "shuffle_rows off im ls xs (Suc i) (tmpimg[i := im ! ?r], tmplabel[i := ls ! ?r]) =
      Inr (take (Suc i) (tmpimg[i := im ! ?r]) @ map (\<lambda>x. im ! unat (x - off)) xs @
             drop (Suc i + length xs) (tmpimg[i := im ! ?r]),
           take (Suc i) (tmplabel[i := ls ! ?r]) @ map (\<lambda>x. ls ! unat (x - off)) xs @
             drop (Suc i + length xs) (tmplabel[i := ls ! ?r]))"
    using Cons.prems by (intro Cons.IH) simp_all
  moreover have "take (Suc i) (tmpimg[i := im ! ?r]) = take i tmpimg @ [im ! ?r]"
    using i by (simp add: take_Suc_conv_app_nth)
  moreover have "take (Suc i) (tmplabel[i := ls ! ?r]) = take i tmplabel @ [ls ! ?r]"
    using i by (simp add: take_Suc_conv_app_nth)
  ultimately show ?case unfolding step by simp
qed

lemma unat_identity: "unat (of_nat j + off - off :: index_t) \<le> j"
  by (simp add: unat_of_nat)

lemma identities_in_range:
  assumes "x \<in> set (identities off N)"
  shows "unat (x - off) < N"
proof -
  from assms obtain j where "j < N" "x = of_nat j + off"
    by (auto simp: identities_def)
  then show ?thesis using unat_identity [of j off] by simp
qed

lemma length_identities: "length (identities off N) = N"
  by (simp add: identities_def)

lemma Shuffle_result:
  assumes ids: "mset (inst it) = mset (identities (inst_offset it) N)"
    and len: "length (img it) = N" "length (labels it) = N"
    and perm: "permutes_ids rs (rnd it) (inst it)"
  shows "Shuffle rs uninit it =
           Inr (it\<lparr>inst := fst (rs (rnd it) (inst it)), rnd := snd (rs (rnd it) (inst it)),
                   img := map (\<lambda>x. img it ! unat (x - inst_offset it)) (fst (rs (rnd it) (inst it))),
                   labels := map (\<lambda>x. labels it ! unat (x - inst_offset it))
                               (fst (rs (rnd it) (inst it)))\<rparr>)"
    and "mset (fst (rs (rnd it) (inst it))) = mset (identities (inst_offset it) N)"
    and "length (fst (rs (rnd it) (inst it))) = N"
proof -
  let ?xs = "fst (rs (rnd it) (inst it))"
  show m: "mset ?xs = mset (identities (inst_offset it) N)"
    using perm ids by (simp add: permutes_ids_def)
  show l: "length ?xs = N"
    using mset_eq_length [OF m] by (simp add: length_identities)
  have "set ?xs = set (identities (inst_offset it) N)"
    using mset_eq_setD [OF m] .
  then have rng: "\<forall>x\<in>set ?xs. unat (x - inst_offset it) < length (img it) \<and>
                    unat (x - inst_offset it) < length (labels it)"
    using identities_in_range len by auto
  have "shuffle_rows (inst_offset it) (img it) (labels it) ?xs 0
          (replicate (length (img it)) uninit, replicate (length (labels it)) 0) =
        Inr (map (\<lambda>x. img it ! unat (x - inst_offset it)) ?xs,
             map (\<lambda>x. labels it ! unat (x - inst_offset it)) ?xs)"
    using shuffle_rows_ok [OF rng, of 0 "replicate (length (img it)) uninit"
        "replicate (length (labels it)) 0"] l len by simp
  then show "Shuffle rs uninit it =
           Inr (it\<lparr>inst := ?xs, rnd := snd (rs (rnd it) (inst it)),
                   img := map (\<lambda>x. img it ! unat (x - inst_offset it)) ?xs,
                   labels := map (\<lambda>x. labels it ! unat (x - inst_offset it)) ?xs\<rparr>)"
    by (simp add: Shuffle_def Let_def case_prod_unfold)
qed

text \<open>
  C7.  For every loaded dataset of N images and N labels whose identities are a
  permutation of \<open>index_offset, ..., index_offset + N - 1\<close>, and a sampler that
  returns a permutation of the identities, \<^verbatim>\<open>Shuffle\<close> returns, and afterwards:
  the multiset of identities is the one of before; for every position \<open>i\<close> the
  image and the label stored at \<open>i\<close> are those that were stored at position
  \<open>identity[i] - index_offset\<close> before; the new identities and the new state of
  the generator are what the sampler returns for the state of the generator
  and the identities of before, so the same seed gives the same permutation.
\<close>

theorem Shuffle_permutes:
  assumes ids: "mset (inst it) = mset (identities (inst_offset it) N)"
    and len: "length (img it) = N" "length (labels it) = N"
    and perm: "permutes_ids rs (rnd it) (inst it)"
  shows "\<exists>it'. Shuffle rs uninit it = Inr it' \<and>
           inst it' = fst (rs (rnd it) (inst it)) \<and> rnd it' = snd (rs (rnd it) (inst it)) \<and>
           inst_offset it' = inst_offset it \<and>
           mset (inst it') = mset (inst it) \<and>
           length (inst it') = N \<and> length (img it') = N \<and> length (labels it') = N \<and>
           (\<forall>i<N. img it' ! i = img it ! unat (inst it' ! i - inst_offset it) \<and>
                  labels it' ! i = labels it ! unat (inst it' ! i - inst_offset it))"
  using Shuffle_result(1) [OF ids len perm, of uninit] Shuffle_result(2,3) [OF ids len perm] ids
  by simp


lemma mset_rotate_eq: "mset (rotate n xs) = mset xs"
proof -
  have "mset (drop (n mod length xs) xs @ take (n mod length xs) xs) =
        mset (take (n mod length xs) xs @ drop (n mod length xs) xs)"
    by (simp only: mset_append add.commute)
  then show ?thesis by (simp add: rotate_drop_take)
qed

lemma rotate_sampler_permutes: "permutes_ids rotate_sampler r xs"
  by (simp add: permutes_ids_def rotate_sampler_def mset_rotate_eq)

theorem Shuffle_permutes_witness:
  "mset (inst (example_iterator 5 2 1000)) =
     mset (identities (inst_offset (example_iterator 5 2 1000)) 5) \<and>
   length (img (example_iterator 5 2 1000)) = 5 \<and>
   length (labels (example_iterator 5 2 1000)) = 5 \<and>
   permutes_ids rotate_sampler (rnd (example_iterator 5 2 1000))
     (inst (example_iterator 5 2 1000)) \<and>
   Shuffle rotate_sampler 0 (example_iterator 5 2 1000) =
     Inr ((example_iterator 5 2 1000)
            \<lparr>inst := [1003, 1004, 1000, 1001, 1002], rnd := 4,
             img := [103, 104, 100, 101, 102], labels := [3, 4, 0, 1, 2]\<rparr>)"
proof -
  let ?X = "example_iterator 5 2 1000"
  have h: "mset (inst ?X) = mset (identities (inst_offset ?X) 5)"
    "length (img ?X) = 5" "length (labels ?X) = 5"
    "permutes_ids rotate_sampler (rnd ?X) (inst ?X)"
    by (simp_all add: example_iterator_def rotate_sampler_permutes)
  have r: "fst (rotate_sampler (rnd ?X) (inst ?X)) = [1003, 1004, 1000, 1001, 1002]"
    "snd (rotate_sampler (rnd ?X) (inst ?X)) = 4"
    by code_simp+
  from Shuffle_permutes [OF h, of 0] obtain it' where
    s: "Shuffle rotate_sampler 0 ?X = Inr it'"
    and i: "inst it' = [1003, 1004, 1000, 1001, 1002]" and g: "rnd it' = 4"
    unfolding r by blast
  have "Shuffle rotate_sampler 0 ?X =
     Inr (?X\<lparr>inst := [1003, 1004, 1000, 1001, 1002], rnd := 4,
             img := [103, 104, 100, 101, 102], labels := [3, 4, 0, 1, 2]\<rparr>)"
    by code_simp
  with h show ?thesis by simp
qed
section \<open>Batch source: identities\<close>

lemma read_labels_ok:
  assumes "n \<le> length fi" and "i + n \<le> length ls"
  shows "read_labels n i fi off (ls, ins) =
           Inr (take i ls @ map uint (take n fi) @ drop (i + n) ls,
                ins @ map (\<lambda>j. of_nat j + off) [i..<i + n])"
  using assms
proof (induction n arbitrary: i fi ls ins)
  case 0
  then show ?case by simp
next
  case (Suc n)
  from Suc.prems(1) obtain ch fi' where fi: "fi = ch # fi'"
    by (cases fi) auto
  have i: "i < length ls" using Suc.prems(2) by simp
  have step: "read_labels (Suc n) i fi off (ls, ins) =
      read_labels n (Suc i) fi' off (ls[i := uint ch], ins @ [of_nat i + off])"
    using i by (simp add: fi Stream_Read_def)
  have "read_labels n (Suc i) fi' off (ls[i := uint ch], ins @ [of_nat i + off]) =
      Inr (take (Suc i) (ls[i := uint ch]) @ map uint (take n fi') @
             drop (Suc i + n) (ls[i := uint ch]),
           (ins @ [of_nat i + off]) @ map (\<lambda>j. of_nat j + off) [Suc i..<Suc i + n])"
    using Suc.prems fi by (intro Suc.IH) simp_all
  moreover have "take (Suc i) (ls[i := uint ch]) = take i ls @ [uint ch]"
    using i by (simp add: take_Suc_conv_app_nth)
  moreover have "[i..<i + Suc n] = i # [Suc i..<Suc i + n]"
    by (simp add: upt_conv_Cons)
  ultimately show ?case unfolding step by (simp add: fi)
qed

lemma LoadLabel_ok:
  assumes "ReadInt fi = Inr (magic, s1)" and "ReadInt s1 = Inr (cnt, s2)"
    and "0 \<le> sint cnt" and "nat (sint cnt) \<le> length s2"
  shows "LoadLabel it fi =
           Inr (it\<lparr>labels := map uint (take (nat (sint cnt)) s2),
                   inst := inst it @ identities (inst_offset it) (nat (sint cnt))\<rparr>)"
proof -
  let ?n = "nat (sint cnt)"
  have l: "length (vector_resize ?n (labels it)) = ?n"
    by (simp add: vector_resize_def)
  have "read_labels ?n 0 s2 (inst_offset it) (vector_resize ?n (labels it), inst it) =
          Inr (map uint (take ?n s2), inst it @ identities (inst_offset it) ?n)"
    using read_labels_ok [OF assms(4), of 0 "vector_resize ?n (labels it)" "inst_offset it" "inst it"] l
    by (simp add: identities_def)
  then show ?thesis
    using assms(1-3) by (simp add: LoadLabel_def)
qed

lemma identities_nth: "i < N \<Longrightarrow> identities off N ! i = of_nat i + off"
  by (simp add: identities_def)

lemma row_of_identity:
  assumes "N \<le> 2 ^ 32"
  shows "map (\<lambda>x. unat (x - off)) (identities off N) = [0..<N]"
proof -
  have "unat (of_nat j + off - off :: index_t) = j" if "j < N" for j
    using that assms by (simp add: unat_of_nat)
  then have "map (\<lambda>j. unat (of_nat j + off - off :: index_t)) [0..<N] = map (\<lambda>j. j) [0..<N]"
    by (intro map_cong) simp_all
  then show ?thesis
    by (simp add: identities_def comp_def)
qed

lemma mset_rows:
  assumes m: "mset xs = mset (identities off N)" and n: "N \<le> 2 ^ 32"
    and len: "length zs = N"
  shows "mset (map (\<lambda>x. zs ! unat (x - off)) xs) = mset zs"
proof -
  have "mset (map (\<lambda>x. unat (x - off)) xs) = mset (map (\<lambda>x. unat (x - off)) (identities off N))"
    using m by (metis mset_map)
  then have p: "mset (map (\<lambda>x. unat (x - off)) xs) = mset [0..<N]"
    by (simp only: row_of_identity [OF n])
  have "map (\<lambda>x. zs ! unat (x - off)) xs = map ((!) zs) (map (\<lambda>x. unat (x - off)) xs)"
    by simp
  then have "mset (map (\<lambda>x. zs ! unat (x - off)) xs) = image_mset ((!) zs) (mset [0..<N])"
    using p by (metis mset_map)
  also have "\<dots> = mset (map ((!) zs) [0..<length zs])"
    using len by simp
  also have "\<dots> = mset zs" by (simp only: map_nth)
  finally show ?thesis .
qed

lemma Shuffle_rows_permuted:
  assumes ids: "mset (inst it) = mset (identities (inst_offset it) N)"
    and len: "length (img it) = N" "length (labels it) = N"
    and n: "N \<le> 2 ^ 32"
    and perm: "permutes_ids rs (rnd it) (inst it)"
  shows "\<exists>it'. Shuffle rs uninit it = Inr it' \<and>
           inst_offset it' = inst_offset it \<and>
           mset (inst it') = mset (identities (inst_offset it) N) \<and>
           length (img it') = N \<and> length (labels it') = N \<and>
           mset (zip (img it') (labels it')) = mset (zip (img it) (labels it))"
proof -
  let ?xs = "fst (rs (rnd it) (inst it))"
  let ?f = "\<lambda>x. unat (x - inst_offset it)"
  note r = Shuffle_result [OF ids len perm]
  have z: "zip (map (\<lambda>x. img it ! ?f x) ?xs) (map (\<lambda>x. labels it ! ?f x) ?xs) =
           map (\<lambda>x. zip (img it) (labels it) ! ?f x) ?xs"
  proof (rule nth_equalityI)
    show "length (zip (map (\<lambda>x. img it ! ?f x) ?xs) (map (\<lambda>x. labels it ! ?f x) ?xs)) =
          length (map (\<lambda>x. zip (img it) (labels it) ! ?f x) ?xs)" by simp
  next
    fix i assume "i < length (zip (map (\<lambda>x. img it ! ?f x) ?xs) (map (\<lambda>x. labels it ! ?f x) ?xs))"
    then have i: "i < length ?xs" by simp
    then have "?xs ! i \<in> set (identities (inst_offset it) N)"
      using mset_eq_setD [OF r(2)] nth_mem by blast
    then have "?f (?xs ! i) < N" by (rule identities_in_range)
    then show "zip (map (\<lambda>x. img it ! ?f x) ?xs) (map (\<lambda>x. labels it ! ?f x) ?xs) ! i =
          map (\<lambda>x. zip (img it) (labels it) ! ?f x) ?xs ! i"
      using i len by simp
  qed
  have "mset (map (\<lambda>x. zip (img it) (labels it) ! ?f x) ?xs) = mset (zip (img it) (labels it))"
    using mset_rows [OF r(2) n, of "zip (img it) (labels it)"] len by simp
  then show ?thesis
    using r(1) [of uninit] r(2,3) z by simp
qed

text \<open>
  C10.  \<^verbatim>\<open>LoadLabel\<close> on an iterator without identities and a label file with a
  count of N labels and at least N bytes after it returns, and the identity at
  position \<open>i\<close> is \<open>i + index_offset\<close> for every \<open>i < N\<close>.  \<^verbatim>\<open>Shuffle\<close> takes the row
  for position \<open>i\<close> from position \<open>identity[i] - index_offset\<close>; whenever the
  identities are a permutation of \<open>index_offset, ..., index_offset + N - 1\<close> (N
  at most \<open>2 ^ 32\<close>), every such position is a row of the buffers, the pairs of
  image and label after the shuffle are a permutation of the pairs of before,
  and the identities are again a permutation of the same range.  So two
  shuffles in a row both return and leave a permutation of the loaded rows.
\<close>

theorem identities_invariant:
  "(inst it0 = [] \<and> ReadInt fi = Inr (magic, s1) \<and> ReadInt s1 = Inr (cnt, s2) \<and>
    0 \<le> sint cnt \<and> nat (sint cnt) \<le> length s2 \<longrightarrow>
      (\<exists>it'. LoadLabel it0 fi = Inr it' \<and> length (inst it') = nat (sint cnt) \<and>
         length (labels it') = nat (sint cnt) \<and>
         (\<forall>i<nat (sint cnt). inst it' ! i = of_nat i + inst_offset it'))) \<and>
   (mset (inst it) = mset (identities (inst_offset it) N) \<and>
    length (img it) = N \<and> length (labels it) = N \<and> N \<le> 2 ^ 32 \<and>
    (\<forall>r xs. permutes_ids rs r xs) \<longrightarrow>
      (\<exists>it1 it2. Shuffle rs uninit it = Inr it1 \<and> Shuffle rs uninit it1 = Inr it2 \<and>
         mset (inst it1) = mset (identities (inst_offset it) N) \<and>
         mset (inst it2) = mset (identities (inst_offset it) N) \<and>
         mset (zip (img it1) (labels it1)) = mset (zip (img it) (labels it)) \<and>
         mset (zip (img it2) (labels it2)) = mset (zip (img it) (labels it))))"
proof (intro conjI impI)
  assume a: "inst it0 = [] \<and> ReadInt fi = Inr (magic, s1) \<and> ReadInt s1 = Inr (cnt, s2) \<and>
    0 \<le> sint cnt \<and> nat (sint cnt) \<le> length s2"
  then have r: "ReadInt fi = Inr (magic, s1)" "ReadInt s1 = Inr (cnt, s2)"
    "0 \<le> sint cnt" "nat (sint cnt) \<le> length s2"
    by simp_all
  have "LoadLabel it0 fi =
           Inr (it0\<lparr>labels := map uint (take (nat (sint cnt)) s2),
                    inst := inst it0 @ identities (inst_offset it0) (nat (sint cnt))\<rparr>)"
    by (rule LoadLabel_ok [OF r])
  with a show "\<exists>it'. LoadLabel it0 fi = Inr it' \<and> length (inst it') = nat (sint cnt) \<and>
         length (labels it') = nat (sint cnt) \<and>
         (\<forall>i<nat (sint cnt). inst it' ! i = of_nat i + inst_offset it')"
    by (simp add: length_identities identities_nth)
next
  assume a: "mset (inst it) = mset (identities (inst_offset it) N) \<and>
    length (img it) = N \<and> length (labels it) = N \<and> N \<le> 2 ^ 32 \<and>
    (\<forall>r xs. permutes_ids rs r xs)"
  then have p: "permutes_ids rs r xs" for r xs by simp
  from a Shuffle_rows_permuted [of it N rs uninit] p obtain it1 where
    1: "Shuffle rs uninit it = Inr it1" "inst_offset it1 = inst_offset it"
      "mset (inst it1) = mset (identities (inst_offset it) N)"
      "length (img it1) = N" "length (labels it1) = N"
      "mset (zip (img it1) (labels it1)) = mset (zip (img it) (labels it))"
    by blast
  from a 1 Shuffle_rows_permuted [of it1 N rs uninit] p obtain it2 where
    2: "Shuffle rs uninit it1 = Inr it2"
      "mset (inst it2) = mset (identities (inst_offset it) N)"
      "mset (zip (img it2) (labels it2)) = mset (zip (img it) (labels it))"
    by auto
  from 1 2 show "\<exists>it1 it2. Shuffle rs uninit it = Inr it1 \<and> Shuffle rs uninit it1 = Inr it2 \<and>
         mset (inst it1) = mset (identities (inst_offset it) N) \<and>
         mset (inst it2) = mset (identities (inst_offset it) N) \<and>
         mset (zip (img it1) (labels it1)) = mset (zip (img it) (labels it)) \<and>
         mset (zip (img it2) (labels it2)) = mset (zip (img it) (labels it))"
    by blast
qed

theorem identities_invariant_witness:
  "inst (example_iterator 0 2 1000) = [] \<and>
   ReadInt [0, 0, 8, 1, 0, 0, 0, 3, 7, 2, 1] = Inr (2049, [0, 0, 0, 3, 7, 2, 1]) \<and>
   ReadInt [0, 0, 0, 3, 7, 2, 1] = Inr (3, [7, 2, 1]) \<and>
   0 \<le> sint (3 :: int32) \<and> nat (sint (3 :: int32)) \<le> length [7, 2, 1 :: 8 word] \<and>
   LoadLabel (example_iterator 0 2 1000) [0, 0, 8, 1, 0, 0, 0, 3, 7, 2, 1] =
     Inr ((example_iterator 0 2 1000)\<lparr>labels := [7, 2, 1], inst := [1000, 1001, 1002]\<rparr>) \<and>
   mset (inst (example_iterator 5 2 1000)) =
     mset (identities (inst_offset (example_iterator 5 2 1000)) 5) \<and>
   length (img (example_iterator 5 2 1000)) = 5 \<and>
   length (labels (example_iterator 5 2 1000)) = 5 \<and> (5 :: nat) \<le> 2 ^ 32 \<and>
   (\<forall>r xs. permutes_ids rotate_sampler r xs) \<and>
   Shuffle rotate_sampler 0 (example_iterator 5 2 1000) =
     Inr ((example_iterator 5 2 1000)
            \<lparr>inst := [1003, 1004, 1000, 1001, 1002], rnd := 4,
             img := [103, 104, 100, 101, 102], labels := [3, 4, 0, 1, 2]\<rparr>) \<and>
   Shuffle rotate_sampler 0
     ((example_iterator 5 2 1000)
        \<lparr>inst := [1003, 1004, 1000, 1001, 1002], rnd := 4,
         img := [103, 104, 100, 101, 102], labels := [3, 4, 0, 1, 2]\<rparr>) =
     Inr ((example_iterator 5 2 1000)
            \<lparr>inst := [1002, 1003, 1004, 1000, 1001], rnd := 5,
             img := [100, 101, 102, 103, 104], labels := [0, 1, 2, 3, 4]\<rparr>)"
proof -
  let ?X = "example_iterator 5 2 1000"
  have l: "inst (example_iterator 0 2 1000) = []"
    "ReadInt [0, 0, 8, 1, 0, 0, 0, 3, 7, 2, 1] = Inr (2049, [0, 0, 0, 3, 7, 2, 1])"
    "ReadInt [0, 0, 0, 3, 7, 2, 1] = Inr (3, [7, 2, 1])"
    "LoadLabel (example_iterator 0 2 1000) [0, 0, 8, 1, 0, 0, 0, 3, 7, 2, 1] =
       Inr ((example_iterator 0 2 1000)\<lparr>labels := [7, 2, 1], inst := [1000, 1001, 1002]\<rparr>)"
    by code_simp+
  have h: "mset (inst ?X) = mset (identities (inst_offset ?X) 5)"
    "length (img ?X) = 5" "length (labels ?X) = 5"
    by (simp_all add: example_iterator_def)
  have s: "Shuffle rotate_sampler 0 ?X =
     Inr (?X\<lparr>inst := [1003, 1004, 1000, 1001, 1002], rnd := 4,
             img := [103, 104, 100, 101, 102], labels := [3, 4, 0, 1, 2]\<rparr>)"
    "Shuffle rotate_sampler 0
       (?X\<lparr>inst := [1003, 1004, 1000, 1001, 1002], rnd := 4,
           img := [103, 104, 100, 101, 102], labels := [3, 4, 0, 1, 2]\<rparr>) =
     Inr (?X\<lparr>inst := [1002, 1003, 1004, 1000, 1001], rnd := 5,
             img := [100, 101, 102, 103, 104], labels := [0, 1, 2, 3, 4]\<rparr>)"
    by code_simp+
  show ?thesis
    using identities_invariant [of "example_iterator 0 2 1000"
        "[0, 0, 8, 1, 0, 0, 0, 3, 7, 2, 1]" 2049 "[0, 0, 0, 3, 7, 2, 1]" 3 "[7, 2, 1]"
        ?X 5 rotate_sampler 0]
      l h s rotate_sampler_permutes
    by simp
qed

text \<open>
  In the example the second shuffle takes the row for position 0 from position
  \<open>1002 - 1000 = 2\<close> of the buffers as the first shuffle left them: the rows are
  permuted once more, and the identity 1002 now stands beside the image that
  was loaded with identity 1000.
\<close>

end
